theory Spec2Isabelle
  imports Complex_Main "HOL-Library.Word"
begin

section \<open>Shared conventions\<close>

text \<open>
  The development follows the Go sources of the backup retention engine:
  the period algebra (package \<open>period\<close>), the configuration validator
  (package \<open>backups_config\<close>) and the cleaner (package \<open>backuping\<close>).

  A Go function either returns or panics. Both are values here: \<open>Panic m\<close> is a panic
  with message \<open>m\<close>, \<open>Return v\<close> a normal return of \<open>v\<close>. A Go \<open>error\<close> result
  is a \<open>string option\<close>: \<open>None\<close> is \<open>nil\<close>, \<open>Some m\<close> an error with message \<open>m\<close>.
\<close>

datatype 'a outcome = Panic string | Return 'a

type_synonym error = "string option"

text \<open>\<open>uuid.UUID\<close> is a 16-byte array; \<open>uuid.Nil\<close> is the all-zero value.\<close>

type_synonym uuid = "128 word"

definition uuid_Nil :: uuid where
  "uuid_Nil = 0"

section \<open>Period algebra (package period)\<close>

text \<open>\<open>type TimePeriod string\<close>: any string may occur, eleven are named.\<close>

type_synonym TimePeriod = string

definition PeriodDay :: TimePeriod where "PeriodDay = ''DAY''"
definition PeriodWeek :: TimePeriod where "PeriodWeek = ''WEEK''"
definition PeriodMonth :: TimePeriod where "PeriodMonth = ''MONTH''"
definition Period3Month :: TimePeriod where "Period3Month = ''3_MONTH''"
definition Period6Month :: TimePeriod where "Period6Month = ''6_MONTH''"
definition PeriodYear :: TimePeriod where "PeriodYear = ''YEAR''"
definition Period2Years :: TimePeriod where "Period2Years = ''2_YEARS''"
definition Period3Years :: TimePeriod where "Period3Years = ''3_YEARS''"
definition Period4Years :: TimePeriod where "Period4Years = ''4_YEARS''"
definition Period5Years :: TimePeriod where "Period5Years = ''5_YEARS''"
definition PeriodForever :: TimePeriod where "PeriodForever = ''FOREVER''"

lemmas period_defs =
  PeriodDay_def PeriodWeek_def PeriodMonth_def Period3Month_def Period6Month_def
  PeriodYear_def Period2Years_def Period3Years_def Period4Years_def Period5Years_def
  PeriodForever_def

text \<open>
  \<open>time.Duration\<close> is a signed 64-bit count of nanoseconds. The largest duration built
  below is \<open>5 * 365 * 24\<close> hours, about \<open>1.6 * 10^17\<close> nanoseconds, well inside the
  64-bit range, so the products are written over \<open>int\<close> without wrap-around.
\<close>

type_synonym Duration = int

definition time_Minute :: Duration where
  "time_Minute = 60 * 1000000000"

definition time_Hour :: Duration where
  "time_Hour = 60 * time_Minute"

definition ToDuration :: "TimePeriod \<Rightarrow> Duration outcome" where
  "ToDuration p =
     (if p = PeriodDay then Return (24 * time_Hour)
      else if p = PeriodWeek then Return (7 * 24 * time_Hour)
      else if p = PeriodMonth then Return (30 * 24 * time_Hour)
      else if p = Period3Month then Return (90 * 24 * time_Hour)
      else if p = Period6Month then Return (180 * 24 * time_Hour)
      else if p = PeriodYear then Return (365 * 24 * time_Hour)
      else if p = Period2Years then Return (2 * 365 * 24 * time_Hour)
      else if p = Period3Years then Return (3 * 365 * 24 * time_Hour)
      else if p = Period4Years then Return (4 * 365 * 24 * time_Hour)
      else if p = Period5Years then Return (5 * 365 * 24 * time_Hour)
      else if p = PeriodForever then Return 0
      else Panic (''unknown period: '' @ p))"

text \<open>
  \<open>CompareTo\<close> returns at once on equal strings; otherwise it converts both periods
  first (either conversion may panic) and only then looks at \<open>FOREVER\<close>.
\<close>

definition CompareTo :: "TimePeriod \<Rightarrow> TimePeriod \<Rightarrow> int outcome" where
  "CompareTo p other =
     (if p = other then Return 0
      else case ToDuration p of
        Panic m \<Rightarrow> Panic m
      | Return d1 \<Rightarrow>
          (case ToDuration other of
             Panic m \<Rightarrow> Panic m
           | Return d2 \<Rightarrow>
               if p = PeriodForever then Return 1
               else if other = PeriodForever then Return (- 1)
               else if d1 < d2 then Return (- 1)
               else if d1 > d2 then Return 1
               else Return 0))"

text \<open>The eleven named periods, in the order of the constant block.\<close>

definition namedPeriods :: "TimePeriod list" where
  "namedPeriods =
     [PeriodDay, PeriodWeek, PeriodMonth, Period3Month, Period6Month, PeriodYear,
      Period2Years, Period3Years, Period4Years, Period5Years, PeriodForever]"

text \<open>
  The position of a named period in the canonical chain
  \<open>DAY < WEEK < MONTH < 3_MONTH < 6_MONTH < YEAR < 2_YEARS < ... < 5_YEARS < FOREVER\<close>.
  It is a yardstick for the comparison, not part of the program.
\<close>

definition periodRank :: "TimePeriod \<Rightarrow> int" where
  "periodRank p =
     (if p = PeriodDay then 0
      else if p = PeriodWeek then 1
      else if p = PeriodMonth then 2
      else if p = Period3Month then 3
      else if p = Period6Month then 4
      else if p = PeriodYear then 5
      else if p = Period2Years then 6
      else if p = Period3Years then 7
      else if p = Period4Years then 8
      else if p = Period5Years then 9
      else 10)"

section \<open>Backup configuration and its validator (package backups_config)\<close>

text \<open>
  \<open>RetentionPolicyType\<close>, \<open>BackupEncryption\<close> and \<open>TimePeriod\<close> are Go string types,
  so a record may hold any string, not only the named constants. \<open>BackupInterval\<close> is a
  pointer; only whether it is \<open>nil\<close> is read. Go \<open>int\<close> and \<open>int64\<close> fields are
  only compared, never added or multiplied, so they are plain integers here. The fields
  \<open>Storage\<close>, \<open>SendNotificationsOn\<close> and \<open>SendNotificationsOnString\<close> are read by
  neither the validator nor the cleaner and are left out.
\<close>

record Interval =
  IntervalID :: uuid

type_synonym RetentionPolicyType = string
type_synonym BackupEncryption = string

definition RetentionPolicyTypeTimePeriod :: RetentionPolicyType where
  "RetentionPolicyTypeTimePeriod = ''TIME_PERIOD''"
definition RetentionPolicyTypeCount :: RetentionPolicyType where
  "RetentionPolicyTypeCount = ''COUNT''"
definition RetentionPolicyTypeGFS :: RetentionPolicyType where
  "RetentionPolicyTypeGFS = ''GFS''"

definition BackupEncryptionNone :: BackupEncryption where
  "BackupEncryptionNone = ''NONE''"
definition BackupEncryptionEncrypted :: BackupEncryption where
  "BackupEncryptionEncrypted = ''ENCRYPTED''"

lemmas config_const_defs =
  RetentionPolicyTypeTimePeriod_def RetentionPolicyTypeCount_def RetentionPolicyTypeGFS_def
  BackupEncryptionNone_def BackupEncryptionEncrypted_def

record BackupConfig =
  DatabaseID :: uuid
  IsBackupsEnabled :: bool
  RetentionPolicyType :: RetentionPolicyType
  RetentionTimePeriod :: TimePeriod
  RetentionCount :: int
  RetentionGfsHours :: int
  RetentionGfsDays :: int
  RetentionGfsWeeks :: int
  RetentionGfsMonths :: int
  RetentionGfsYears :: int
  BackupIntervalID :: uuid
  BackupInterval :: "Interval option"
  StorageID :: "uuid option"
  IsRetryIfFailed :: bool
  MaxFailedTriesCount :: int
  Encryption :: BackupEncryption
  MaxBackupSizeMB :: int
  MaxBackupsTotalSizeMB :: int

text \<open>
  \<open>plans.DatabasePlan\<close>: its fields as the validator and its tests read them. The two
  size fields are named \<open>MaxBackupSizeMB\<close> and \<open>MaxBackupsTotalSizeMB\<close> in Go; they
  carry the prefix \<open>Plan\<close> here to keep them apart from the configuration's fields.
\<close>

record DatabasePlan =
  PlanDatabaseID :: uuid
  PlanMaxBackupSizeMB :: int
  PlanMaxBackupsTotalSizeMB :: int
  MaxStoragePeriod :: TimePeriod

text \<open>
  \<open>validateRetentionPolicy\<close>: a switch on the policy type. \<open>CompareTo\<close> may panic on
  an unknown period string, and the panic leaves the validator.
\<close>

definition validateRetentionPolicy :: "BackupConfig \<Rightarrow> DatabasePlan \<Rightarrow> error outcome" where
  "validateRetentionPolicy b plan =
     (if RetentionPolicyType b = RetentionPolicyTypeTimePeriod \<or> RetentionPolicyType b = ''''
      then
        if RetentionTimePeriod b = '''' then Return (Some ''retention time period is required'')
        else if MaxStoragePeriod plan \<noteq> PeriodForever then
          (case CompareTo (RetentionTimePeriod b) (MaxStoragePeriod plan) of
             Panic m \<Rightarrow> Panic m
           | Return c \<Rightarrow>
               if c > 0 then Return (Some ''storage period exceeds plan limit'')
               else Return None)
        else Return None
      else if RetentionPolicyType b = RetentionPolicyTypeCount then
        if RetentionCount b \<le> 0 then Return (Some ''retention count must be greater than 0'')
        else Return None
      else if RetentionPolicyType b = RetentionPolicyTypeGFS then
        if RetentionGfsHours b \<le> 0 \<and> RetentionGfsDays b \<le> 0 \<and> RetentionGfsWeeks b \<le> 0 \<and>
           RetentionGfsMonths b \<le> 0 \<and> RetentionGfsYears b \<le> 0
        then Return (Some ''at least one GFS retention field must be greater than 0'')
        else Return None
      else Return (Some ''invalid retention policy type''))"

text \<open>
  \<open>Validate\<close>: the first argument is \<open>config.GetEnv().IsCloud\<close>, the one value the
  validator reads from the environment.
\<close>

definition Validate :: "bool \<Rightarrow> BackupConfig \<Rightarrow> DatabasePlan \<Rightarrow> error outcome" where
  "Validate isCloud b plan =
     (if BackupIntervalID b = uuid_Nil \<and> BackupInterval b = None
      then Return (Some ''backup interval is required'')
      else case validateRetentionPolicy b plan of
        Panic m \<Rightarrow> Panic m
      | Return (Some err) \<Rightarrow> Return (Some err)
      | Return None \<Rightarrow>
          if IsRetryIfFailed b \<and> MaxFailedTriesCount b \<le> 0
          then Return (Some ''max failed tries count must be greater than 0'')
          else if Encryption b \<noteq> '''' \<and> Encryption b \<noteq> BackupEncryptionNone \<and>
                  Encryption b \<noteq> BackupEncryptionEncrypted
          then Return (Some ''encryption must be NONE or ENCRYPTED'')
          else if isCloud \<and> Encryption b \<noteq> BackupEncryptionEncrypted
          then Return (Some ''encryption is mandatory for cloud storage'')
          else if MaxBackupSizeMB b < 0
          then Return (Some ''max backup size must be non-negative'')
          else if MaxBackupsTotalSizeMB b < 0
          then Return (Some ''max backups total size must be non-negative'')
          else if PlanMaxBackupSizeMB plan > 0 \<and>
                  (MaxBackupSizeMB b = 0 \<or> MaxBackupSizeMB b > PlanMaxBackupSizeMB plan)
          then Return (Some ''max backup size exceeds plan limit'')
          else if PlanMaxBackupsTotalSizeMB plan > 0 \<and>
                  (MaxBackupsTotalSizeMB b = 0 \<or>
                   MaxBackupsTotalSizeMB b > PlanMaxBackupsTotalSizeMB plan)
          then Return (Some ''max total backups size exceeds plan limit'')
          else Return None)"

subsection \<open>The validator's checks one by one\<close>

text \<open>
  The specification lists the validator as eight checks in a fixed order, the last one
  made of two plan gates. Each check is written here on its own, in the specification's
  words, to be compared with \<open>Validate\<close>. The second check is the source's
  \<open>validateRetentionPolicy\<close> itself. \<open>firstFailure\<close> runs a list of check results
  and stops at the first one that is not a plain success.
\<close>

definition checkBackupInterval :: "BackupConfig \<Rightarrow> error outcome" where
  "checkBackupInterval b =
     (if BackupIntervalID b = uuid_Nil \<and> BackupInterval b = None
      then Return (Some ''backup interval is required'') else Return None)"

definition checkRetry :: "BackupConfig \<Rightarrow> error outcome" where
  "checkRetry b =
     (if IsRetryIfFailed b \<and> \<not> 1 \<le> MaxFailedTriesCount b
      then Return (Some ''max failed tries count must be greater than 0'') else Return None)"

definition checkEncryptionMember :: "BackupConfig \<Rightarrow> error outcome" where
  "checkEncryptionMember b =
     (if Encryption b \<in> {'''', BackupEncryptionNone, BackupEncryptionEncrypted}
      then Return None else Return (Some ''encryption must be NONE or ENCRYPTED''))"

definition checkCloudEncryption :: "bool \<Rightarrow> BackupConfig \<Rightarrow> error outcome" where
  "checkCloudEncryption isCloud b =
     (if isCloud \<and> Encryption b \<noteq> BackupEncryptionEncrypted
      then Return (Some ''encryption is mandatory for cloud storage'') else Return None)"

definition checkMaxBackupSizeSign :: "BackupConfig \<Rightarrow> error outcome" where
  "checkMaxBackupSizeSign b =
     (if 0 \<le> MaxBackupSizeMB b then Return None
      else Return (Some ''max backup size must be non-negative''))"

definition checkMaxTotalSizeSign :: "BackupConfig \<Rightarrow> error outcome" where
  "checkMaxTotalSizeSign b =
     (if 0 \<le> MaxBackupsTotalSizeMB b then Return None
      else Return (Some ''max backups total size must be non-negative''))"

definition checkPlanBackupSize :: "BackupConfig \<Rightarrow> DatabasePlan \<Rightarrow> error outcome" where
  "checkPlanBackupSize b plan =
     (if PlanMaxBackupSizeMB plan > 0 \<and>
         (MaxBackupSizeMB b = 0 \<or> MaxBackupSizeMB b > PlanMaxBackupSizeMB plan)
      then Return (Some ''max backup size exceeds plan limit'') else Return None)"

definition checkPlanTotalSize :: "BackupConfig \<Rightarrow> DatabasePlan \<Rightarrow> error outcome" where
  "checkPlanTotalSize b plan =
     (if PlanMaxBackupsTotalSizeMB plan > 0 \<and>
         (MaxBackupsTotalSizeMB b = 0 \<or>
          MaxBackupsTotalSizeMB b > PlanMaxBackupsTotalSizeMB plan)
      then Return (Some ''max total backups size exceeds plan limit'') else Return None)"

lemmas check_defs =
  checkBackupInterval_def checkRetry_def checkEncryptionMember_def checkCloudEncryption_def
  checkMaxBackupSizeSign_def checkMaxTotalSizeSign_def checkPlanBackupSize_def
  checkPlanTotalSize_def

fun firstFailure :: "error outcome list \<Rightarrow> error outcome" where
  "firstFailure [] = Return None"
| "firstFailure (Return None # rs) = firstFailure rs"
| "firstFailure (r # rs) = r"

definition checksBeforePlanGates ::
  "bool \<Rightarrow> BackupConfig \<Rightarrow> DatabasePlan \<Rightarrow> error outcome list" where
  "checksBeforePlanGates isCloud b plan =
     [checkBackupInterval b, validateRetentionPolicy b plan, checkRetry b,
      checkEncryptionMember b, checkCloudEncryption isCloud b,
      checkMaxBackupSizeSign b, checkMaxTotalSizeSign b]"

definition orderedChecks ::
  "bool \<Rightarrow> BackupConfig \<Rightarrow> DatabasePlan \<Rightarrow> error outcome list" where
  "orderedChecks isCloud b plan =
     checksBeforePlanGates isCloud b plan @
     [checkPlanBackupSize b plan, checkPlanTotalSize b plan]"

text \<open>The configuration and the plan that the validator's tests start from.\<close>

definition createValidBackupConfig :: BackupConfig where
  "createValidBackupConfig =
     \<lparr> DatabaseID = 1, IsBackupsEnabled = True,
       RetentionPolicyType = RetentionPolicyTypeTimePeriod,
       RetentionTimePeriod = PeriodMonth,
       RetentionCount = 0, RetentionGfsHours = 0, RetentionGfsDays = 0,
       RetentionGfsWeeks = 0, RetentionGfsMonths = 0, RetentionGfsYears = 0,
       BackupIntervalID = 2, BackupInterval = Some \<lparr> IntervalID = 2 \<rparr>,
       StorageID = None, IsRetryIfFailed = False, MaxFailedTriesCount = 3,
       Encryption = BackupEncryptionNone, MaxBackupSizeMB = 100,
       MaxBackupsTotalSizeMB = 1000 \<rparr>"

definition createUnlimitedPlan :: DatabasePlan where
  "createUnlimitedPlan =
     \<lparr> PlanDatabaseID = 1, PlanMaxBackupSizeMB = 0, PlanMaxBackupsTotalSizeMB = 0,
       MaxStoragePeriod = PeriodForever \<rparr>"

text \<open>Configurations and plans used as concrete inputs of the validator.\<close>

definition multipleLimitsConfig :: BackupConfig where
  "multipleLimitsConfig =
     createValidBackupConfig
       \<lparr> RetentionTimePeriod := PeriodYear, MaxBackupSizeMB := 500,
         MaxBackupsTotalSizeMB := 5000 \<rparr>"

definition multipleLimitsPlan :: DatabasePlan where
  "multipleLimitsPlan =
     createUnlimitedPlan
       \<lparr> MaxStoragePeriod := PeriodMonth, PlanMaxBackupSizeMB := 100,
         PlanMaxBackupsTotalSizeMB := 1000 \<rparr>"

lemmas validator_example_defs =
  multipleLimitsConfig_def multipleLimitsPlan_def createValidBackupConfig_def
  createUnlimitedPlan_def

definition noIntervalUnlimitedSizeConfig :: BackupConfig where
  "noIntervalUnlimitedSizeConfig =
     createValidBackupConfig
       \<lparr> BackupIntervalID := uuid_Nil, BackupInterval := None, MaxBackupSizeMB := 0 \<rparr>"

definition plan500MB :: DatabasePlan where
  "plan500MB = createUnlimitedPlan \<lparr> PlanMaxBackupSizeMB := 500 \<rparr>"

definition unlimitedSizeConfig :: BackupConfig where
  "unlimitedSizeConfig = createValidBackupConfig \<lparr> MaxBackupSizeMB := 0 \<rparr>"

section \<open>Time (Go's package time, as far as the cleaner uses it)\<close>

text \<open>
  A \<open>time.Time\<close> is an instant; it is modelled as the number of nanoseconds since the
  Unix epoch, read in UTC (the backups' timestamps are UTC instants). \<open>Time.Sub\<close>
  saturates at the ends of the 64-bit \<open>Duration\<close> range, and \<open>time.Since t\<close> is
  \<open>time.Now().Sub(t)\<close>; the clock reading \<open>now\<close> is passed in.
\<close>

type_synonym Time = int

definition maxDuration :: Duration where
  "maxDuration = 2 ^ 63 - 1"

definition minDuration :: Duration where
  "minDuration = - (2 ^ 63)"

definition time_Sub :: "Time \<Rightarrow> Time \<Rightarrow> Duration" where
  "time_Sub t u =
     (if t - u > maxDuration then maxDuration
      else if t - u < minDuration then minDuration
      else t - u)"

definition time_Since :: "Time \<Rightarrow> Time \<Rightarrow> Duration" where
  "time_Since now t = time_Sub now t"

text \<open>
  The calendar of \<open>Time.Date\<close>, \<open>Time.Hour\<close>, \<open>Time.Weekday\<close> and \<open>Time.ISOWeek\<close>:
  the proleptic Gregorian calendar in UTC. \<open>civilFromDays\<close> turns a day number (days
  since 1970-01-01) into year, month and day; \<open>daysFromCivil\<close> is its inverse.
  \<open>ISOWeek\<close> moves to the Thursday of the instant's week and returns that day's year
  and one plus its zero-based day of the year divided by seven, as Go does.
\<close>

definition nsPerDay :: int where
  "nsPerDay = 24 * time_Hour"

definition unixDay :: "Time \<Rightarrow> int" where
  "unixDay t = t div nsPerDay"

definition daysFromCivil :: "int \<Rightarrow> int \<Rightarrow> int \<Rightarrow> int" where
  "daysFromCivil y m d =
     (let y' = (if m \<le> 2 then y - 1 else y);
          era = y' div 400;
          yoe = y' - era * 400;
          doy = (153 * (if m > 2 then m - 3 else m + 9) + 2) div 5 + d - 1;
          doe = yoe * 365 + yoe div 4 - yoe div 100 + doy
      in era * 146097 + doe - 719468)"

definition civilFromDays :: "int \<Rightarrow> int \<times> int \<times> int" where
  "civilFromDays z =
     (let z' = z + 719468;
          era = z' div 146097;
          doe = z' - era * 146097;
          yoe = (doe - doe div 1460 + doe div 36524 - doe div 146096) div 365;
          doy = doe - (365 * yoe + yoe div 4 - yoe div 100);
          mp = (5 * doy + 2) div 153;
          d = doy - (153 * mp + 2) div 5 + 1;
          m = (if mp < 10 then mp + 3 else mp - 9);
          y = yoe + era * 400
      in (if m \<le> 2 then y + 1 else y, m, d))"

definition time_Year :: "Time \<Rightarrow> int" where
  "time_Year t = fst (civilFromDays (unixDay t))"

definition time_Month :: "Time \<Rightarrow> int" where
  "time_Month t = fst (snd (civilFromDays (unixDay t)))"

definition time_Day :: "Time \<Rightarrow> int" where
  "time_Day t = snd (snd (civilFromDays (unixDay t)))"

definition time_HourOfDay :: "Time \<Rightarrow> int" where
  "time_HourOfDay t = (t mod nsPerDay) div time_Hour"

text \<open>Sunday is 0; 1970-01-01 was a Thursday.\<close>

definition time_Weekday :: "Time \<Rightarrow> int" where
  "time_Weekday t = (unixDay t + 4) mod 7"

definition time_ISOWeek :: "Time \<Rightarrow> int \<times> int" where
  "time_ISOWeek t =
     (let d = 4 - time_Weekday t;
          d' = (if d = 4 then - 3 else d);
          thursday = unixDay t + d';
          year = fst (civilFromDays thursday);
          yday = thursday - daysFromCivil year 1 1
      in (year, yday div 7 + 1))"

text \<open>\<open>time.Date(y, m, d, h, 0, 0, 0, time.UTC)\<close>, to write instants down.\<close>

definition time_Date :: "int \<Rightarrow> int \<Rightarrow> int \<Rightarrow> int \<Rightarrow> Time" where
  "time_Date y m d h = daysFromCivil y m d * nsPerDay + h * time_Hour"

text \<open>
  Decimal output. \<open>appendInt x width\<close> is the decimal form of \<open>x\<close>, zero-padded to
  \<open>width\<close> digits, with a leading minus sign for a negative number: what the layout
  elements \<open>2006\<close> (width 4), \<open>01\<close>, \<open>02\<close>, \<open>15\<close> (width 2) and the verbs
  \<open>%d\<close> (width 0) and \<open>%02d\<close> produce.
\<close>

definition digitChar :: "nat \<Rightarrow> char" where
  "digitChar d = ''0123456789'' ! d"

fun decimal :: "nat \<Rightarrow> string" where
  "decimal n = (if n < 10 then [digitChar n] else decimal (n div 10) @ [digitChar (n mod 10)])"

declare decimal.simps [simp del]

definition appendInt :: "int \<Rightarrow> nat \<Rightarrow> string" where
  "appendInt x width =
     (let ds = decimal (nat \<bar>x\<bar>)
      in (if x < 0 then ''-'' else '''') @ replicate (width - length ds) CHR ''0'' @ ds)"

text \<open>The five bucket keys of \<open>buildGFSKeepSet\<close>.\<close>

definition format_2006 :: "Time \<Rightarrow> string" where
  "format_2006 t = appendInt (time_Year t) 4"

definition format_2006_01 :: "Time \<Rightarrow> string" where
  "format_2006_01 t = format_2006 t @ ''-'' @ appendInt (time_Month t) 2"

definition format_2006_01_02 :: "Time \<Rightarrow> string" where
  "format_2006_01_02 t = format_2006_01 t @ ''-'' @ appendInt (time_Day t) 2"

definition format_2006_01_02_15 :: "Time \<Rightarrow> string" where
  "format_2006_01_02_15 t = format_2006_01_02 t @ ''-'' @ appendInt (time_HourOfDay t) 2"

definition sprintf_week :: "int \<Rightarrow> int \<Rightarrow> string" where
  "sprintf_week weekYear week = appendInt weekYear 0 @ ''-'' @ appendInt week 2"

section \<open>Backups (package backups_core)\<close>

text \<open>
  A row of the backup catalog, with the fields the cleaner and its tests read. The Go
  fields \<open>DatabaseID\<close> and \<open>StorageID\<close> carry the prefix \<open>Backup\<close> here to keep
  them apart from the configuration's fields. \<open>BackupSizeMb\<close> is a \<open>float64\<close> in Go;
  a size is the rational number its \<open>float64\<close> stands for.
\<close>

datatype BackupStatus = BackupStatusInProgress | BackupStatusCompleted | BackupStatusFailed

record Backup =
  ID :: uuid
  BackupDatabaseID :: uuid
  BackupStorageID :: uuid
  Status :: BackupStatus
  BackupSizeMb :: rat
  CreatedAt :: Time
  FileName :: string

section \<open>The GFS keep-set builder (package backuping)\<close>

text \<open>
  The state of the loop of \<open>buildGFSKeepSet\<close>: the keep map (a Go
  \<open>map[uuid.UUID]bool\<close> that only ever stores \<open>true\<close>, so a set), the five
  seen-key maps (sets likewise) and the five counters. A counter grows by one per
  list element at most, so it stays far inside the range of Go's \<open>int\<close>.
\<close>

record gfsState =
  keep :: "uuid set"
  hoursSeen :: "string set"
  daysSeen :: "string set"
  weeksSeen :: "string set"
  monthsSeen :: "string set"
  yearsSeen :: "string set"
  hoursKept :: int
  daysKept :: int
  weeksKept :: int
  monthsKept :: int
  yearsKept :: int

definition gfsInit :: gfsState where
  "gfsInit =
     \<lparr> keep = {}, hoursSeen = {}, daysSeen = {}, weeksSeen = {}, monthsSeen = {},
       yearsSeen = {}, hoursKept = 0, daysKept = 0, weeksKept = 0, monthsKept = 0,
       yearsKept = 0 \<rparr>"

definition hourKey :: "Backup \<Rightarrow> string" where
  "hourKey backup = format_2006_01_02_15 (CreatedAt backup)"

definition dayKey :: "Backup \<Rightarrow> string" where
  "dayKey backup = format_2006_01_02 (CreatedAt backup)"

definition weekKey :: "Backup \<Rightarrow> string" where
  "weekKey backup =
     (case time_ISOWeek (CreatedAt backup) of (weekYear, week) \<Rightarrow> sprintf_week weekYear week)"

definition monthKey :: "Backup \<Rightarrow> string" where
  "monthKey backup = format_2006_01 (CreatedAt backup)"

definition yearKey :: "Backup \<Rightarrow> string" where
  "yearKey backup = format_2006 (CreatedAt backup)"

text \<open>
  The loop body is five \<open>if\<close> statements in a row, one per slot class. Each is a
  function of its own here; \<open>gfsStep\<close> runs them in the source's order.
\<close>

definition keepHour :: "int \<Rightarrow> gfsState \<Rightarrow> Backup \<Rightarrow> gfsState" where
  "keepHour hours st backup =
     (if hours > 0 \<and> hoursKept st < hours \<and> hourKey backup \<notin> hoursSeen st
      then st \<lparr> keep := insert (ID backup) (keep st),
                hoursSeen := insert (hourKey backup) (hoursSeen st),
                hoursKept := hoursKept st + 1 \<rparr>
      else st)"

definition keepDay :: "int \<Rightarrow> gfsState \<Rightarrow> Backup \<Rightarrow> gfsState" where
  "keepDay days st backup =
     (if days > 0 \<and> daysKept st < days \<and> dayKey backup \<notin> daysSeen st
      then st \<lparr> keep := insert (ID backup) (keep st),
                daysSeen := insert (dayKey backup) (daysSeen st),
                daysKept := daysKept st + 1 \<rparr>
      else st)"

definition keepWeek :: "int \<Rightarrow> gfsState \<Rightarrow> Backup \<Rightarrow> gfsState" where
  "keepWeek weeks st backup =
     (if weeks > 0 \<and> weeksKept st < weeks \<and> weekKey backup \<notin> weeksSeen st
      then st \<lparr> keep := insert (ID backup) (keep st),
                weeksSeen := insert (weekKey backup) (weeksSeen st),
                weeksKept := weeksKept st + 1 \<rparr>
      else st)"

definition keepMonth :: "int \<Rightarrow> gfsState \<Rightarrow> Backup \<Rightarrow> gfsState" where
  "keepMonth months st backup =
     (if months > 0 \<and> monthsKept st < months \<and> monthKey backup \<notin> monthsSeen st
      then st \<lparr> keep := insert (ID backup) (keep st),
                monthsSeen := insert (monthKey backup) (monthsSeen st),
                monthsKept := monthsKept st + 1 \<rparr>
      else st)"

definition keepYear :: "int \<Rightarrow> gfsState \<Rightarrow> Backup \<Rightarrow> gfsState" where
  "keepYear years st backup =
     (if years > 0 \<and> yearsKept st < years \<and> yearKey backup \<notin> yearsSeen st
      then st \<lparr> keep := insert (ID backup) (keep st),
                yearsSeen := insert (yearKey backup) (yearsSeen st),
                yearsKept := yearsKept st + 1 \<rparr>
      else st)"

definition gfsStep :: "int \<Rightarrow> int \<Rightarrow> int \<Rightarrow> int \<Rightarrow> int \<Rightarrow> gfsState \<Rightarrow> Backup \<Rightarrow> gfsState" where
  "gfsStep hours days weeks months years st backup =
     keepYear years
       (keepMonth months
          (keepWeek weeks
             (keepDay days
                (keepHour hours st backup) backup) backup) backup) backup"

fun gfsLoop :: "int \<Rightarrow> int \<Rightarrow> int \<Rightarrow> int \<Rightarrow> int \<Rightarrow> gfsState \<Rightarrow> Backup list \<Rightarrow> gfsState" where
  "gfsLoop hours days weeks months years st [] = st"
| "gfsLoop hours days weeks months years st (backup # rest) =
     gfsLoop hours days weeks months years (gfsStep hours days weeks months years st backup) rest"

definition buildGFSKeepSet ::
  "Backup list \<Rightarrow> int \<Rightarrow> int \<Rightarrow> int \<Rightarrow> int \<Rightarrow> int \<Rightarrow> uuid set" where
  "buildGFSKeepSet backups hours days weeks months years =
     keep (gfsLoop hours days weeks months years gfsInit backups)"

subsection \<open>One slot class on its own\<close>

text \<open>
  The specification describes the builder class by class: a class with a positive
  budget keeps a backup when its kept-count is below the budget and the backup's key
  has not been seen. \<open>slotKept\<close> follows these words for a single class and returns
  the backups that class keeps, in list order; it is the yardstick the builder is
  compared with.
\<close>

fun slotKept :: "(Backup \<Rightarrow> string) \<Rightarrow> int \<Rightarrow> string set \<Rightarrow> int \<Rightarrow> Backup list \<Rightarrow> Backup list" where
  "slotKept key budget seen kept [] = []"
| "slotKept key budget seen kept (b # bs) =
     (if budget > 0 \<and> kept < budget \<and> key b \<notin> seen
      then b # slotKept key budget (insert (key b) seen) (kept + 1) bs
      else slotKept key budget seen kept bs)"

datatype slotClass = HourSlot | DaySlot | WeekSlot | MonthSlot | YearSlot

fun slotKey :: "slotClass \<Rightarrow> Backup \<Rightarrow> string" where
  "slotKey HourSlot = hourKey"
| "slotKey DaySlot = dayKey"
| "slotKey WeekSlot = weekKey"
| "slotKey MonthSlot = monthKey"
| "slotKey YearSlot = yearKey"

text \<open>The backups a class keeps when the builder runs on a list with the five budgets.\<close>

fun keptByClass :: "slotClass \<Rightarrow> Backup list \<Rightarrow> int \<Rightarrow> int \<Rightarrow> int \<Rightarrow> int \<Rightarrow> int \<Rightarrow> Backup list" where
  "keptByClass HourSlot backups hours days weeks months years = slotKept hourKey hours {} 0 backups"
| "keptByClass DaySlot backups hours days weeks months years = slotKept dayKey days {} 0 backups"
| "keptByClass WeekSlot backups hours days weeks months years = slotKept weekKey weeks {} 0 backups"
| "keptByClass MonthSlot backups hours days weeks months years = slotKept monthKey months {} 0 backups"
| "keptByClass YearSlot backups hours days weeks months years = slotKept yearKey years {} 0 backups"

text \<open>Newest first: no later element of the list is newer than an earlier one.\<close>

definition newestFirst :: "Backup list \<Rightarrow> bool" where
  "newestFirst backups = sorted_wrt (\<lambda>a b. CreatedAt b \<le> CreatedAt a) backups"

text \<open>
  Concrete lists for the builder: four backups at noon of 2025-06-18, 2025-06-11,
  2025-05-18 and 2025-04-18, and two backups across the turn of the year.
\<close>

definition gfsBackup :: "uuid \<Rightarrow> Time \<Rightarrow> Backup" where
  "gfsBackup i t =
     \<lparr> ID = i, BackupDatabaseID = 1, BackupStorageID = 1, Status = BackupStatusCompleted,
       BackupSizeMb = 10, CreatedAt = t, FileName = ''backup'' \<rparr>"

definition gfsAdditiveScenario :: "Backup list" where
  "gfsAdditiveScenario =
     [gfsBackup 1 (time_Date 2025 6 18 12), gfsBackup 2 (time_Date 2025 6 11 12),
      gfsBackup 3 (time_Date 2025 5 18 12), gfsBackup 4 (time_Date 2025 4 18 12)]"

definition gfsWeekBoundaryScenario :: "Backup list" where
  "gfsWeekBoundaryScenario =
     [gfsBackup 1 (time_Date 2025 1 1 12), gfsBackup 2 (time_Date 2024 12 28 12)]"

section \<open>The cleaner's surroundings\<close>

text \<open>
  The cleaner works on a catalog of backup rows and on object stores. \<open>World\<close> is
  the state it can change or leave traces in: the catalog rows, the stored objects
  (storage identifier and file name), the log, and two records of calls that the
  properties below speak about: \<open>hookCalls\<close> lists every invocation of a
  pre-removal listener (its position in the registry and the backup's identifier),
  \<open>deleteCalls\<close> lists every backup handed to \<open>DeleteBackup\<close>, both in call order.

  The cleaner reads the clock every time it computes a cutoff or asks whether a backup
  is recent, so one tick takes many readings. \<open>clockReads\<close> counts the readings
  taken so far, and \<open>graceChecks\<close> lists every call of \<open>isRecentBackup\<close> in call
  order: the reading that call took and the backup it was asked about.
\<close>

record World =
  catalog :: "Backup list"
  blobs :: "(uuid \<times> string) set"
  hookCalls :: "(nat \<times> uuid) list"
  deleteCalls :: "Backup list"
  logs :: "string list"
  clockReads :: nat
  graceChecks :: "(Time \<times> Backup) list"

text \<open>
  \<open>Env\<close> is what the surroundings decide: the clock (\<open>clock env k\<close> is what
  the reading number \<open>k\<close> returns, counted from 0; nothing is assumed about how the
  readings follow one another), the registered listeners (each the result of its
  \<open>OnBeforeBackupRemove\<close>), the configurations known to the configuration service,
  the database's floating-point sum of a column of sizes, and for every call that can
  fail the error it fails with (\<open>None\<close> when it succeeds).
\<close>

record Env =
  clock :: "nat \<Rightarrow> Time"
  backupRemoveListeners :: "(Backup \<Rightarrow> error) list"
  configs :: "BackupConfig list"
  configsErr :: error
  getStorageErr :: "uuid \<Rightarrow> error"
  deleteFileErr :: "uuid \<Rightarrow> string \<Rightarrow> error"
  deleteByIDErr :: "uuid \<Rightarrow> error"
  findBeforeDateErr :: "uuid \<Rightarrow> error"
  findByStatusErr :: "uuid \<Rightarrow> error"
  findOldestErr :: "uuid \<Rightarrow> error"
  totalSizeErr :: "uuid \<Rightarrow> error"
  sumSizes :: "rat list \<Rightarrow> rat"

definition logMsg :: "string \<Rightarrow> World \<Rightarrow> World" where
  "logMsg m w = w \<lparr> logs := logs w @ [m] \<rparr>"

subsection \<open>Backup repository\<close>

text \<open>
  Modelled from the spec: \<open>BackupRepository.FindBackupsBeforeDate\<close>, whose code is
  not among the sources. It returns the rows of the database created before the given
  instant, of any status, newest first.
\<close>

definition FindBackupsBeforeDate :: "Env \<Rightarrow> uuid \<Rightarrow> Time \<Rightarrow> World \<Rightarrow> string + Backup list" where
  "FindBackupsBeforeDate env databaseID date w =
     (case findBeforeDateErr env databaseID of
        Some err \<Rightarrow> Inl err
      | None \<Rightarrow>
          Inr (sort_key (\<lambda>b. - CreatedAt b)
                 (filter (\<lambda>b. BackupDatabaseID b = databaseID \<and> CreatedAt b < date)
                    (catalog w))))"

text \<open>
  Modelled from the spec: \<open>BackupRepository.FindByDatabaseIdAndStatus\<close>, whose code
  is not among the sources. It returns the rows of the database with the given status,
  newest first.
\<close>

definition FindByDatabaseIdAndStatus ::
  "Env \<Rightarrow> uuid \<Rightarrow> BackupStatus \<Rightarrow> World \<Rightarrow> string + Backup list" where
  "FindByDatabaseIdAndStatus env databaseID status w =
     (case findByStatusErr env databaseID of
        Some err \<Rightarrow> Inl err
      | None \<Rightarrow>
          Inr (sort_key (\<lambda>b. - CreatedAt b)
                 (filter (\<lambda>b. BackupDatabaseID b = databaseID \<and> Status b = status)
                    (catalog w))))"

text \<open>
  Modelled from the spec: \<open>BackupRepository.FindOldestByDatabaseExcludingInProgress\<close>,
  whose code is not among the sources. It returns at most \<open>limit\<close> rows of the
  database whose status is not \<open>IN_PROGRESS\<close>, oldest first.
\<close>

definition FindOldestByDatabaseExcludingInProgress ::
  "Env \<Rightarrow> uuid \<Rightarrow> int \<Rightarrow> World \<Rightarrow> string + Backup list" where
  "FindOldestByDatabaseExcludingInProgress env databaseID limit w =
     (case findOldestErr env databaseID of
        Some err \<Rightarrow> Inl err
      | None \<Rightarrow>
          Inr (take (nat limit)
                 (sort_key CreatedAt
                    (filter (\<lambda>b. BackupDatabaseID b = databaseID \<and>
                                  Status b \<noteq> BackupStatusInProgress)
                       (catalog w)))))"

text \<open>
  Modelled from the spec: \<open>BackupRepository.GetTotalSizeByDatabase\<close>, whose code is
  not among the sources. It returns a sum of sizes of the database's rows as a
  \<open>float64\<close>. The spec sums the \<open>COMPLETED\<close> rows only; the repository's own test
  \<open>Test_GetTotalSizeByDatabase_CalculatesCorrectly\<close> stores rows of 10.5 and 20.3
  (completed), 5.2 (failed) and 100 (in progress) and requires a total of 36.0, so the
  query leaves out the rows in progress and counts the failed ones. The definition
  follows the test. The sizes are \<open>float64\<close> values and the database adds them in
  floating point; how that sum rounds is left to \<open>sumSizes\<close>.
\<close>

definition GetTotalSizeByDatabase :: "Env \<Rightarrow> uuid \<Rightarrow> World \<Rightarrow> string + rat" where
  "GetTotalSizeByDatabase env databaseID w =
     (case totalSizeErr env databaseID of
        Some err \<Rightarrow> Inl err
      | None \<Rightarrow>
          Inr (sumSizes env (map BackupSizeMb
                 (filter (\<lambda>b. BackupDatabaseID b = databaseID \<and>
                               Status b \<noteq> BackupStatusInProgress)
                    (catalog w)))))"

text \<open>
  Modelled from the spec: \<open>BackupRepository.DeleteByID\<close>, whose code is not among the
  sources. On success the rows with the identifier are gone (none, when there was no
  such row); on failure the catalog is as before.
\<close>

definition DeleteByID :: "Env \<Rightarrow> uuid \<Rightarrow> World \<Rightarrow> error \<times> World" where
  "DeleteByID env i w =
     (case deleteByIDErr env i of
        Some err \<Rightarrow> (Some err, w)
      | None \<Rightarrow> (None, w \<lparr> catalog := filter (\<lambda>b. ID b \<noteq> i) (catalog w) \<rparr>))"

subsection \<open>Storage service and configuration service\<close>

text \<open>
  Modelled from the spec: \<open>StorageService.GetStorageByID\<close> and \<open>Storage.DeleteFile\<close>,
  whose code is not among the sources. A storage handle is the storage's identifier.
  \<open>DeleteFile\<close> removes the object on success (also when it is already absent) and
  leaves the store as it is on failure.
\<close>

definition GetStorageByID :: "Env \<Rightarrow> uuid \<Rightarrow> string + uuid" where
  "GetStorageByID env storageID =
     (case getStorageErr env storageID of Some err \<Rightarrow> Inl err | None \<Rightarrow> Inr storageID)"

definition Storage_DeleteFile :: "Env \<Rightarrow> uuid \<Rightarrow> string \<Rightarrow> World \<Rightarrow> error \<times> World" where
  "Storage_DeleteFile env storage fileName w =
     (case deleteFileErr env storage fileName of
        Some err \<Rightarrow> (Some err, w)
      | None \<Rightarrow> (None, w \<lparr> blobs := blobs w - {(storage, fileName)} \<rparr>))"

text \<open>
  Modelled from the spec: \<open>BackupConfigService.GetBackupConfigsWithEnabledBackups\<close>,
  whose code is not among the sources. It returns the configurations with
  \<open>isBackupsEnabled = true\<close>.
\<close>

definition GetBackupConfigsWithEnabledBackups :: "Env \<Rightarrow> string + BackupConfig list" where
  "GetBackupConfigsWithEnabledBackups env =
     (case configsErr env of
        Some err \<Rightarrow> Inl err
      | None \<Rightarrow> Inr (filter IsBackupsEnabled (configs env)))"

section \<open>The cleaner (package backuping)\<close>

text \<open>
  \<open>time.Now\<close>: every call takes the next reading of the clock.
\<close>

definition time_Now :: "Env \<Rightarrow> World \<Rightarrow> Time \<times> World" where
  "time_Now env w = (clock env (clockReads w), w \<lparr> clockReads := Suc (clockReads w) \<rparr>)"

text \<open>
  \<open>isRecentBackup\<close> reads the clock through \<open>time.Since\<close>, once per call, and
  compares the age it reads with the grace period. The call leaves its reading and its
  backup in \<open>graceChecks\<close>.
\<close>

definition recentBackupGracePeriod :: Duration where
  "recentBackupGracePeriod = 60 * time_Minute"

definition isRecentBackup :: "Env \<Rightarrow> Backup \<Rightarrow> World \<Rightarrow> bool \<times> World" where
  "isRecentBackup env backup w =
     (let (reading, w1) = time_Now env w
      in (time_Since reading (CreatedAt backup) < recentBackupGracePeriod,
          w1 \<lparr> graceChecks := graceChecks w1 @ [(reading, backup)] \<rparr>))"

subsection \<open>The deletion pipeline\<close>

text \<open>
  The loop over the listeners of \<open>DeleteBackup\<close>: the listeners are called in
  registry order, and the first error ends the loop. The counter is the position of
  the next listener in the registry.
\<close>

fun runListeners :: "(Backup \<Rightarrow> error) list \<Rightarrow> nat \<Rightarrow> Backup \<Rightarrow> World \<Rightarrow> error \<times> World" where
  "runListeners [] i backup w = (None, w)"
| "runListeners (listener # rest) i backup w =
     (let w' = w \<lparr> hookCalls := hookCalls w @ [(i, ID backup)] \<rparr>
      in case listener backup of
           Some err \<Rightarrow> (Some err, w')
         | None \<Rightarrow> runListeners rest (Suc i) backup w')"

text \<open>
  \<open>DeleteBackup\<close>. The errors of the two \<open>DeleteFile\<close> calls are logged and dropped;
  the result is that of \<open>DeleteByID\<close>.
\<close>

definition DeleteBackup :: "Env \<Rightarrow> Backup \<Rightarrow> World \<Rightarrow> error \<times> World" where
  "DeleteBackup env backup w =
     (case runListeners (backupRemoveListeners env) 0 backup
             (w \<lparr> deleteCalls := deleteCalls w @ [backup] \<rparr>) of
        (Some err, w1) \<Rightarrow> (Some err, w1)
      | (None, w1) \<Rightarrow>
          (case GetStorageByID env (BackupStorageID backup) of
             Inl err \<Rightarrow> (Some err, w1)
           | Inr storage \<Rightarrow>
               (let (err1, w2) = Storage_DeleteFile env storage (FileName backup) w1;
                    w3 = (if err1 \<noteq> None then logMsg ''Failed to delete backup file'' w2 else w2);
                    metadataFileName = FileName backup @ ''.metadata'';
                    (err2, w4) = Storage_DeleteFile env storage metadataFileName w3;
                    w5 = (if err2 \<noteq> None
                          then logMsg ''Failed to delete backup metadata file'' w4 else w4)
                in DeleteByID env (ID backup) w5)))"

subsection \<open>Retention passes\<close>

text \<open>
  The three retention passes end in the same loop over their candidates: skip a
  candidate that is recent, hand every other one to \<open>DeleteBackup\<close>, log the outcome
  and go on whatever it was. Every candidate that is asked about is asked with a
  reading of its own. The GFS pass first skips the members of the keep-set, without
  asking whether they are recent; \<open>skip\<close> is that test (constantly false in the other
  two passes). The two messages are the pass's error and info messages.
\<close>

fun deleteCandidates ::
  "Env \<Rightarrow> (Backup \<Rightarrow> bool) \<Rightarrow> string \<Rightarrow> string \<Rightarrow> Backup list \<Rightarrow> World \<Rightarrow> World" where
  "deleteCandidates env skip failMsg okMsg [] w = w"
| "deleteCandidates env skip failMsg okMsg (backup # rest) w =
     (if skip backup then deleteCandidates env skip failMsg okMsg rest w
      else case isRecentBackup env backup w of
             (True, w1) \<Rightarrow> deleteCandidates env skip failMsg okMsg rest w1
           | (False, w1) \<Rightarrow>
               (case DeleteBackup env backup w1 of
                  (Some err, w') \<Rightarrow>
                    deleteCandidates env skip failMsg okMsg rest (logMsg failMsg w')
                | (None, w') \<Rightarrow>
                    deleteCandidates env skip failMsg okMsg rest (logMsg okMsg w')))"

text \<open>
  \<open>cleanByTimePeriod\<close>. \<open>ToDuration\<close> panics on an unknown period string, and the
  panic leaves the pass. The cutoff is computed from a reading of its own, taken after
  \<open>ToDuration\<close> has returned. The wrapped error carries the database identifier in
  Go; the message keeps the text and the cause here.
\<close>

definition cleanByTimePeriod :: "Env \<Rightarrow> BackupConfig \<Rightarrow> World \<Rightarrow> error outcome \<times> World" where
  "cleanByTimePeriod env backupConfig w =
     (if RetentionTimePeriod backupConfig = '''' then (Return None, w)
      else if RetentionTimePeriod backupConfig = PeriodForever then (Return None, w)
      else case ToDuration (RetentionTimePeriod backupConfig) of
        Panic m \<Rightarrow> (Panic m, w)
      | Return storeDuration \<Rightarrow>
          (let (reading, w1) = time_Now env w;
               dateBeforeBackupsShouldBeDeleted = reading - storeDuration
           in case FindBackupsBeforeDate env (DatabaseID backupConfig)
                     dateBeforeBackupsShouldBeDeleted w1 of
                Inl err \<Rightarrow>
                  (Return (Some (''failed to find old backups for database: '' @ err)), w1)
              | Inr oldBackups \<Rightarrow>
                  (Return None,
                   deleteCandidates env (\<lambda>_. False) ''Failed to delete old backup''
                     ''Deleted old backup'' oldBackups w1)))"

definition cleanByCount :: "Env \<Rightarrow> BackupConfig \<Rightarrow> World \<Rightarrow> error \<times> World" where
  "cleanByCount env backupConfig w =
     (if RetentionCount backupConfig \<le> 0 then (None, w)
      else case FindByDatabaseIdAndStatus env (DatabaseID backupConfig)
                  BackupStatusCompleted w of
        Inl err \<Rightarrow> (Some (''failed to find completed backups for database: '' @ err), w)
      | Inr completedBackups \<Rightarrow>
          if int (length completedBackups) \<le> RetentionCount backupConfig then (None, w)
          else (None,
                deleteCandidates env (\<lambda>_. False) ''Failed to delete backup by count policy''
                  ''Deleted backup by count policy''
                  (drop (nat (RetentionCount backupConfig)) completedBackups) w))"

definition cleanByGFS :: "Env \<Rightarrow> BackupConfig \<Rightarrow> World \<Rightarrow> error \<times> World" where
  "cleanByGFS env backupConfig w =
     (if RetentionGfsHours backupConfig \<le> 0 \<and> RetentionGfsDays backupConfig \<le> 0 \<and>
         RetentionGfsWeeks backupConfig \<le> 0 \<and> RetentionGfsMonths backupConfig \<le> 0 \<and>
         RetentionGfsYears backupConfig \<le> 0
      then (None, w)
      else case FindByDatabaseIdAndStatus env (DatabaseID backupConfig)
                  BackupStatusCompleted w of
        Inl err \<Rightarrow> (Some (''failed to find completed backups for database: '' @ err), w)
      | Inr completedBackups \<Rightarrow>
          (let keepSet = buildGFSKeepSet completedBackups
                 (RetentionGfsHours backupConfig) (RetentionGfsDays backupConfig)
                 (RetentionGfsWeeks backupConfig) (RetentionGfsMonths backupConfig)
                 (RetentionGfsYears backupConfig)
           in (None,
               deleteCandidates env (\<lambda>backup. ID backup \<in> keepSet)
                 ''Failed to delete backup by GFS policy'' ''Deleted backup by GFS policy''
                 completedBackups w)))"

text \<open>
  The loop of \<open>cleanByRetentionPolicy\<close> over the enabled configurations: the switch
  on the policy type, with the time-period pass as the default. An error of a pass is
  logged and the loop goes on; a panic ends it.
\<close>

definition cleanOneByPolicy :: "Env \<Rightarrow> BackupConfig \<Rightarrow> World \<Rightarrow> error outcome \<times> World" where
  "cleanOneByPolicy env backupConfig w =
     (if RetentionPolicyType backupConfig = RetentionPolicyTypeCount
      then (case cleanByCount env backupConfig w of (cleanErr, w') \<Rightarrow> (Return cleanErr, w'))
      else if RetentionPolicyType backupConfig = RetentionPolicyTypeGFS
      then (case cleanByGFS env backupConfig w of (cleanErr, w') \<Rightarrow> (Return cleanErr, w'))
      else cleanByTimePeriod env backupConfig w)"

fun cleanConfigsByPolicy :: "Env \<Rightarrow> BackupConfig list \<Rightarrow> World \<Rightarrow> error outcome \<times> World" where
  "cleanConfigsByPolicy env [] w = (Return None, w)"
| "cleanConfigsByPolicy env (backupConfig # rest) w =
     (case cleanOneByPolicy env backupConfig w of
        (Panic m, w') \<Rightarrow> (Panic m, w')
      | (Return cleanErr, w') \<Rightarrow>
          cleanConfigsByPolicy env rest
            (if cleanErr \<noteq> None
             then logMsg ''Failed to clean backups by retention policy'' w' else w'))"

definition cleanByRetentionPolicy :: "Env \<Rightarrow> World \<Rightarrow> error outcome \<times> World" where
  "cleanByRetentionPolicy env w =
     (case GetBackupConfigsWithEnabledBackups env of
        Inl err \<Rightarrow> (Return (Some err), w)
      | Inr enabledBackupConfigs \<Rightarrow> cleanConfigsByPolicy env enabledBackupConfigs w)"

subsection \<open>Size enforcement\<close>

text \<open>
  The conversion \<open>float64(limitperDbMB)\<close> of an \<open>int64\<close>: the nearest value with a
  significand of 53 bits, a tie going to the even significand. An integer of at most 53
  bits is its own conversion; a longer one loses its low bits. The result is an integer
  again, and \<open>float64_of_int64\<close> returns it as one. \<open>bitLen\<close> is the number of bits
  of a positive integer.
\<close>

function bitLen :: "int \<Rightarrow> nat" where
  "bitLen n = (if n \<le> 0 then 0 else Suc (bitLen (n div 2)))"
  by pat_completeness auto
termination
  by (relation "measure nat") simp_all

declare bitLen.simps [simp del]

definition float64_of_int64 :: "int \<Rightarrow> int" where
  "float64_of_int64 x =
     (let m = \<bar>x\<bar>; n = bitLen m
      in if n \<le> 53 then x
         else (let s = n - 53; q = m div 2 ^ s; r = m mod 2 ^ s; half = 2 ^ (s - 1);
                   q' = (if half < r \<or> (r = half \<and> odd q) then q + 1 else q)
               in sgn x * (q' * 2 ^ s)))"

text \<open>
  \<open>cleanExceededBackupsForDatabase\<close> is a \<open>for\<close> loop without a bound. Every turn
  that goes on has deleted a catalog row, so the number of rows is a measure; the facts
  about the pipeline needed for that come first.
\<close>

lemma logMsg_frame [simp]:
  "catalog (logMsg m w) = catalog w" "blobs (logMsg m w) = blobs w"
  "hookCalls (logMsg m w) = hookCalls w" "deleteCalls (logMsg m w) = deleteCalls w"
  "logs (logMsg m w) = logs w @ [m]"
  "clockReads (logMsg m w) = clockReads w" "graceChecks (logMsg m w) = graceChecks w"
  by (simp_all add: logMsg_def)

lemma runListeners_frame:
  "runListeners ls i backup w = (r, w') \<Longrightarrow>
     catalog w' = catalog w \<and> blobs w' = blobs w \<and> deleteCalls w' = deleteCalls w \<and>
     logs w' = logs w \<and> clockReads w' = clockReads w \<and> graceChecks w' = graceChecks w"
  by (induction ls arbitrary: i w) (auto simp: Let_def split: option.splits)

lemma runListeners_pass:
  "\<forall>l \<in> set ls. l backup = None \<Longrightarrow>
     runListeners ls i backup w =
       (None, w \<lparr> hookCalls := hookCalls w @ map (\<lambda>k. (i + k, ID backup)) [0..<length ls] \<rparr>)"
proof (induction ls arbitrary: i w)
  case Nil
  show ?case by simp
next
  case (Cons l ls)
  have "map (\<lambda>k. (i + k, ID backup)) [0..<length (l # ls)] =
      (i, ID backup) # map (\<lambda>k. (Suc i + k, ID backup)) [0..<length ls]"
    by (simp add: upt_conv_Cons map_Suc_upt [symmetric] del: upt_Suc)
  with Cons show ?case by (simp add: Let_def)
qed

lemma runListeners_fail:
  "\<forall>l \<in> set pre. l backup = None \<Longrightarrow> l backup = Some err \<Longrightarrow>
     runListeners (pre @ l # post) i backup w =
       (Some err,
        w \<lparr> hookCalls := hookCalls w @ map (\<lambda>k. (i + k, ID backup)) [0..<Suc (length pre)] \<rparr>)"
proof (induction pre arbitrary: i w)
  case Nil
  then show ?case by (simp add: Let_def)
next
  case (Cons p pre)
  have "map (\<lambda>k. (i + k, ID backup)) [0..<Suc (length (p # pre))] =
      (i, ID backup) # map (\<lambda>k. (Suc i + k, ID backup)) [0..<Suc (length pre)]"
    by (simp add: upt_conv_Cons map_Suc_upt [symmetric] del: upt_Suc)
  with Cons show ?case by (simp add: Let_def)
qed

lemma runListeners_error_iff:
  "fst (runListeners ls i backup w) \<noteq> None \<longleftrightarrow> (\<exists>l \<in> set ls. l backup \<noteq> None)"
  by (induction ls arbitrary: i w) (auto simp: Let_def split: option.splits)

lemma DeleteBackup_hook_error:
  assumes "\<forall>l \<in> set pre. l backup = None" and "l backup = Some err"
    and "backupRemoveListeners env = pre @ l # post"
  shows "DeleteBackup env backup w =
     (Some err,
      w \<lparr> deleteCalls := deleteCalls w @ [backup],
          hookCalls := hookCalls w @ map (\<lambda>k. (k, ID backup)) [0..<Suc (length pre)] \<rparr>)"
  using runListeners_fail [where pre = pre and l = l and backup = backup and err = err
      and post = post and i = 0 and w = "w \<lparr> deleteCalls := deleteCalls w @ [backup] \<rparr>",
      OF assms(1,2)]
  by (simp add: DeleteBackup_def assms(3) del: upt_Suc)

lemma DeleteBackup_after_hooks:
  assumes "\<forall>l \<in> set (backupRemoveListeners env). l backup = None"
  shows "DeleteBackup env backup w =
     (let w1 = w \<lparr> deleteCalls := deleteCalls w @ [backup],
                  hookCalls := hookCalls w @
                    map (\<lambda>k. (k, ID backup)) [0..<length (backupRemoveListeners env)] \<rparr>
      in case GetStorageByID env (BackupStorageID backup) of
             Inl err \<Rightarrow> (Some err, w1)
           | Inr storage \<Rightarrow>
               (let (err1, w2) = Storage_DeleteFile env storage (FileName backup) w1;
                    w3 = (if err1 \<noteq> None then logMsg ''Failed to delete backup file'' w2 else w2);
                    metadataFileName = FileName backup @ ''.metadata'';
                    (err2, w4) = Storage_DeleteFile env storage metadataFileName w3;
                    w5 = (if err2 \<noteq> None
                          then logMsg ''Failed to delete backup metadata file'' w4 else w4)
                in DeleteByID env (ID backup) w5))"
  using runListeners_pass [OF assms, of 0 "w \<lparr> deleteCalls := deleteCalls w @ [backup] \<rparr>"]
  by (simp add: DeleteBackup_def Let_def)

lemma Storage_DeleteFile_frame:
  "Storage_DeleteFile env s f w = (r, w') \<Longrightarrow>
     catalog w' = catalog w \<and> deleteCalls w' = deleteCalls w \<and> hookCalls w' = hookCalls w \<and>
     logs w' = logs w \<and> blobs w' = (if r = None then blobs w - {(s, f)} else blobs w) \<and>
     clockReads w' = clockReads w \<and> graceChecks w' = graceChecks w"
  by (auto simp: Storage_DeleteFile_def split: option.splits)

lemma DeleteByID_result:
  "DeleteByID env i w =
     (deleteByIDErr env i,
      if deleteByIDErr env i = None then w \<lparr> catalog := filter (\<lambda>b. ID b \<noteq> i) (catalog w) \<rparr>
      else w)"
  by (simp add: DeleteByID_def split: option.splits)

lemma DeleteBackup_calls:
  "DeleteBackup env backup w = (r, w') \<Longrightarrow> deleteCalls w' = deleteCalls w @ [backup]"
proof -
  assume a: "DeleteBackup env backup w = (r, w')"
  obtain r1 w1 where h: "runListeners (backupRemoveListeners env) 0 backup
      (w \<lparr> deleteCalls := deleteCalls w @ [backup] \<rparr>) = (r1, w1)" by fastforce
  from runListeners_frame [OF h] have d1: "deleteCalls w1 = deleteCalls w @ [backup]" by simp
  obtain e1 w2 where s1: "Storage_DeleteFile env (BackupStorageID backup) (FileName backup) w1 = (e1, w2)"
    by fastforce
  let ?w3 = "if e1 \<noteq> None then logMsg ''Failed to delete backup file'' w2 else w2"
  obtain e2 w4 where s2: "Storage_DeleteFile env (BackupStorageID backup)
      (FileName backup @ ''.metadata'') ?w3 = (e2, w4)"
    by fastforce
  from Storage_DeleteFile_frame [OF s1] Storage_DeleteFile_frame [OF s2] d1
  have d4: "deleteCalls w4 = deleteCalls w @ [backup]" by (simp split: if_splits)
  from a h s1 s2 d1 d4 show ?thesis
    by (auto simp: DeleteBackup_def GetStorageByID_def DeleteByID_result Let_def
        split: option.splits if_splits)
qed

lemma DeleteBackup_catalog:
  "DeleteBackup env backup w = (r, w') \<Longrightarrow>
     catalog w' = (if r = None then filter (\<lambda>b. ID b \<noteq> ID backup) (catalog w) else catalog w)"
proof -
  assume a: "DeleteBackup env backup w = (r, w')"
  obtain r1 w1 where h: "runListeners (backupRemoveListeners env) 0 backup
      (w \<lparr> deleteCalls := deleteCalls w @ [backup] \<rparr>) = (r1, w1)" by fastforce
  from runListeners_frame [OF h] have d1: "catalog w1 = catalog w" by simp
  obtain e1 w2 where s1: "Storage_DeleteFile env (BackupStorageID backup) (FileName backup) w1 = (e1, w2)"
    by fastforce
  let ?w3 = "if e1 \<noteq> None then logMsg ''Failed to delete backup file'' w2 else w2"
  obtain e2 w4 where s2: "Storage_DeleteFile env (BackupStorageID backup)
      (FileName backup @ ''.metadata'') ?w3 = (e2, w4)"
    by fastforce
  from Storage_DeleteFile_frame [OF s1] Storage_DeleteFile_frame [OF s2] d1
  have d4: "catalog w4 = catalog w" by (simp split: if_splits)
  from a h s1 s2 d1 d4 show ?thesis
    by (auto simp: DeleteBackup_def GetStorageByID_def DeleteByID_result Let_def
        split: option.splits if_splits)
qed

lemma DeleteBackup_clock:
  "DeleteBackup env backup w = (r, w') \<Longrightarrow>
     clockReads w' = clockReads w \<and> graceChecks w' = graceChecks w"
proof -
  assume a: "DeleteBackup env backup w = (r, w')"
  obtain r1 w1 where h: "runListeners (backupRemoveListeners env) 0 backup
      (w \<lparr> deleteCalls := deleteCalls w @ [backup] \<rparr>) = (r1, w1)" by fastforce
  from runListeners_frame [OF h]
  have d1: "clockReads w1 = clockReads w \<and> graceChecks w1 = graceChecks w" by simp
  obtain e1 w2 where s1: "Storage_DeleteFile env (BackupStorageID backup) (FileName backup) w1 = (e1, w2)"
    by fastforce
  let ?w3 = "if e1 \<noteq> None then logMsg ''Failed to delete backup file'' w2 else w2"
  obtain e2 w4 where s2: "Storage_DeleteFile env (BackupStorageID backup)
      (FileName backup @ ''.metadata'') ?w3 = (e2, w4)"
    by fastforce
  from Storage_DeleteFile_frame [OF s1] Storage_DeleteFile_frame [OF s2] d1
  have d4: "clockReads w4 = clockReads w \<and> graceChecks w4 = graceChecks w"
    by (simp split: if_splits)
  from a h s1 s2 d1 d4 show ?thesis
    by (auto simp: DeleteBackup_def GetStorageByID_def DeleteByID_result Let_def
        split: option.splits if_splits)
qed

lemma isRecentBackup_result:
  "isRecentBackup env backup w =
     (time_Since (clock env (clockReads w)) (CreatedAt backup) < recentBackupGracePeriod,
      w \<lparr> clockReads := Suc (clockReads w),
          graceChecks := graceChecks w @ [(clock env (clockReads w), backup)] \<rparr>)"
  by (simp add: isRecentBackup_def time_Now_def)

lemma isRecentBackup_catalog:
  "isRecentBackup env backup w = (recent, w1) \<Longrightarrow> catalog w1 = catalog w"
  by (auto simp: isRecentBackup_result)

lemma FindOldest_member:
  assumes "FindOldestByDatabaseExcludingInProgress env databaseID limit w = Inr (b # rest)"
  shows "b \<in> set (catalog w) \<and> BackupDatabaseID b = databaseID \<and>
         Status b \<noteq> BackupStatusInProgress"
proof -
  let ?xs = "sort_key CreatedAt
      (filter (\<lambda>b. BackupDatabaseID b = databaseID \<and> Status b \<noteq> BackupStatusInProgress)
         (catalog w))"
  from assms have "take (nat limit) ?xs = b # rest"
    by (simp add: FindOldestByDatabaseExcludingInProgress_def split: option.splits)
  then have "b \<in> set (take (nat limit) ?xs)" by simp
  then have "b \<in> set ?xs" by (rule in_set_takeD)
  then show ?thesis by simp
qed

text \<open>
  \<open>cleanExceededBackupsForDatabase\<close>: one turn of the loop per unfolding. The
  comparison \<open>backupsTotalSizeMB <= float64(limitperDbMB)\<close> is between the total the
  query returned and the converted cap. Every turn that reaches \<open>isRecentBackup\<close>
  takes a reading of its own. A failing query or a failing deletion returns the error;
  the two \<open>break\<close> statements after a warning and the \<open>break\<close> under the cap return
  \<open>nil\<close>.
\<close>

function cleanExceededBackupsForDatabase :: "Env \<Rightarrow> uuid \<Rightarrow> int \<Rightarrow> World \<Rightarrow> error \<times> World" where
  "cleanExceededBackupsForDatabase env databaseID limitperDbMB w =
     (case GetTotalSizeByDatabase env databaseID w of
        Inl err \<Rightarrow> (Some err, w)
      | Inr backupsTotalSizeMB \<Rightarrow>
          if backupsTotalSizeMB \<le> of_int (float64_of_int64 limitperDbMB) then (None, w)
          else (case FindOldestByDatabaseExcludingInProgress env databaseID 1 w of
                  Inl err \<Rightarrow> (Some err, w)
                | Inr [] \<Rightarrow> (None, logMsg ''No backups to delete but still over limit'' w)
                | Inr (backup # _) \<Rightarrow>
                    (case isRecentBackup env backup w of
                       (True, w1) \<Rightarrow>
                         (None,
                          logMsg ''Oldest backup is too recent to delete, stopping size cleanup''
                            w1)
                     | (False, w1) \<Rightarrow>
                         (case DeleteBackup env backup w1 of
                            (Some err, w') \<Rightarrow>
                              (Some err, logMsg ''Failed to delete exceeded backup'' w')
                          | (None, w') \<Rightarrow>
                              cleanExceededBackupsForDatabase env databaseID limitperDbMB
                                (logMsg ''Deleted exceeded backup'' w')))))"
  by pat_completeness auto
termination
proof (relation "measure (\<lambda>(env, databaseID, limitperDbMB, w). length (catalog w))")
  show "wf (measure (\<lambda>(env, databaseID, limitperDbMB, w). length (catalog w)))" by simp
next
  fix env :: Env and databaseID :: uuid and limitperDbMB :: int and w :: World
    and total :: rat and oldest :: "Backup list" and backup :: Backup
    and rest :: "Backup list" and e :: error and w' :: World
  fix recent :: bool and w1 :: World
  assume "GetTotalSizeByDatabase env databaseID w = Inr total"
    and "\<not> total \<le> of_int (float64_of_int64 limitperDbMB)"
    and oldest: "FindOldestByDatabaseExcludingInProgress env databaseID 1 w = Inr oldest"
    and cons: "oldest = backup # rest"
    and check: "(recent, w1) = isRecentBackup env backup w"
    and "recent = False"
    and pair: "(e, w') = DeleteBackup env backup w1" and ok: "e = None"
  from oldest cons have mem: "backup \<in> set (catalog w)"
    using FindOldest_member by blast
  from check have same: "catalog w1 = catalog w"
    using isRecentBackup_catalog [of env backup w recent w1] by simp
  from pair ok have "DeleteBackup env backup w1 = (None, w')" by simp
  from DeleteBackup_catalog [OF this] same
  have "catalog w' = filter (\<lambda>b. ID b \<noteq> ID backup) (catalog w)" by simp
  moreover from mem have "length (filter (\<lambda>b. ID b \<noteq> ID backup) (catalog w)) < length (catalog w)"
    by (intro length_filter_less [of backup]) auto
  ultimately show "((env, databaseID, limitperDbMB, logMsg ''Deleted exceeded backup'' w'),
      (env, databaseID, limitperDbMB, w)) \<in>
      measure (\<lambda>(env, databaseID, limitperDbMB, w). length (catalog w))"
    by simp
qed

declare cleanExceededBackupsForDatabase.simps [simp del]

text \<open>
  The loop of \<open>cleanExceededBackups\<close> over the enabled configurations: a
  configuration without a positive cap is passed over, an error of a database is logged
  and the loop goes on.
\<close>

fun cleanExceededConfigs :: "Env \<Rightarrow> BackupConfig list \<Rightarrow> World \<Rightarrow> World" where
  "cleanExceededConfigs env [] w = w"
| "cleanExceededConfigs env (backupConfig # rest) w =
     (if MaxBackupsTotalSizeMB backupConfig \<le> 0 then cleanExceededConfigs env rest w
      else case cleanExceededBackupsForDatabase env (DatabaseID backupConfig)
                  (MaxBackupsTotalSizeMB backupConfig) w of
             (Some err, w') \<Rightarrow>
               cleanExceededConfigs env rest
                 (logMsg ''Failed to clean exceeded backups for database'' w')
           | (None, w') \<Rightarrow> cleanExceededConfigs env rest w')"

definition cleanExceededBackups :: "Env \<Rightarrow> World \<Rightarrow> error \<times> World" where
  "cleanExceededBackups env w =
     (case GetBackupConfigsWithEnabledBackups env of
        Inl err \<Rightarrow> (Some err, w)
      | Inr enabledBackupConfigs \<Rightarrow> (None, cleanExceededConfigs env enabledBackupConfigs w))"

subsection \<open>One tick\<close>

text \<open>
  The body of the ticker case of \<open>Run\<close>: the retention phase, then the size phase,
  each error logged. A panic of the retention phase leaves the tick. The timer, the
  cancellation and the single-shot guard of \<open>Run\<close> are not modelled.
\<close>

definition cleanerTick :: "Env \<Rightarrow> World \<Rightarrow> unit outcome \<times> World" where
  "cleanerTick env w =
     (case cleanByRetentionPolicy env w of
        (Panic m, w1) \<Rightarrow> (Panic m, w1)
      | (Return err, w1) \<Rightarrow>
          (let w2 = (if err \<noteq> None
                     then logMsg ''Failed to clean backups by retention policy'' w1 else w1);
               (err2, w3) = cleanExceededBackups env w2
           in (Return (),
               if err2 \<noteq> None then logMsg ''Failed to clean exceeded backups'' w3 else w3)))"

subsection \<open>Concrete surroundings\<close>

text \<open>
  An environment in which nothing fails, no listener is registered, the clock reads
  2025-06-18 13:00 UTC at every reading and the database's sum is the exact one, and an
  empty world; the concrete inputs below vary them.
\<close>

definition quietEnv :: Env where
  "quietEnv =
     \<lparr> clock = (\<lambda>_. time_Date 2025 6 18 13), backupRemoveListeners = [], configs = [],
       configsErr = None, getStorageErr = (\<lambda>_. None), deleteFileErr = (\<lambda>_ _. None),
       deleteByIDErr = (\<lambda>_. None), findBeforeDateErr = (\<lambda>_. None),
       findByStatusErr = (\<lambda>_. None), findOldestErr = (\<lambda>_. None),
       totalSizeErr = (\<lambda>_. None), sumSizes = sum_list \<rparr>"

definition emptyWorld :: World where
  "emptyWorld =
     \<lparr> catalog = [], blobs = {}, hookCalls = [], deleteCalls = [], logs = [],
       clockReads = 0, graceChecks = [] \<rparr>"

definition testBackup :: "uuid \<Rightarrow> BackupStatus \<Rightarrow> rat \<Rightarrow> Time \<Rightarrow> Backup" where
  "testBackup i status sizeMb t =
     \<lparr> ID = i, BackupDatabaseID = 1, BackupStorageID = 1, Status = status,
       BackupSizeMb = sizeMb, CreatedAt = t, FileName = ''backup'' \<rparr>"

definition weekOldBackup :: Backup where
  "weekOldBackup = testBackup 1 BackupStatusCompleted 10 (time_Date 2025 6 11 12)"

definition oneBackupWorld :: World where
  "oneBackupWorld =
     emptyWorld \<lparr> catalog := [weekOldBackup],
                  blobs := {(1, ''backup''), (1, ''backup.metadata'')} \<rparr>"

definition offlineStorageEnv :: Env where
  "offlineStorageEnv = quietEnv \<lparr> deleteFileErr := (\<lambda>_ _. Some ''storage offline'') \<rparr>"

definition vetoEnv :: Env where
  "vetoEnv =
     quietEnv \<lparr> backupRemoveListeners := [\<lambda>_. None, \<lambda>_. Some ''veto'', \<lambda>_. None] \<rparr>"

text \<open>
  Concrete configurations and worlds for the cleaner. Read by \<open>quietEnv\<close> at
  2025-06-18 13:00 UTC: three completed backups of 30 MiB made 3, 4 and 5 hours before;
  one backup in progress for 48 hours under a one-day retention period; two completed
  backups of 8 MiB made 10 and 30 minutes before; a failed backup of 5.25 MiB and two
  completed ones of 20.25 and 10.5 MiB, made 3, 4 and 5 hours before.
\<close>

definition zeroGfsConfig :: BackupConfig where
  "zeroGfsConfig = createValidBackupConfig \<lparr> RetentionPolicyType := RetentionPolicyTypeGFS \<rparr>"

definition zeroCountConfig :: BackupConfig where
  "zeroCountConfig = createValidBackupConfig \<lparr> RetentionPolicyType := RetentionPolicyTypeCount \<rparr>"

definition threeOldBackupsWorld :: World where
  "threeOldBackupsWorld =
     emptyWorld \<lparr> catalog :=
       [testBackup 1 BackupStatusCompleted 30 (time_Date 2025 6 18 10),
        testBackup 2 BackupStatusCompleted 30 (time_Date 2025 6 18 9),
        testBackup 3 BackupStatusCompleted 30 (time_Date 2025 6 18 8)] \<rparr>"

definition dayRetentionEnv :: Env where
  "dayRetentionEnv =
     quietEnv \<lparr> configs := [createValidBackupConfig \<lparr> RetentionTimePeriod := PeriodDay \<rparr>] \<rparr>"

definition stuckBackup :: Backup where
  "stuckBackup = testBackup 1 BackupStatusInProgress 5 (time_Date 2025 6 16 13)"

definition stuckBackupWorld :: World where
  "stuckBackupWorld = emptyWorld \<lparr> catalog := [stuckBackup] \<rparr>"

definition twoRecentBackupsWorld :: World where
  "twoRecentBackupsWorld =
     emptyWorld \<lparr> catalog :=
       [testBackup 1 BackupStatusCompleted 8 (time_Date 2025 6 18 13 - 10 * time_Minute),
        testBackup 2 BackupStatusCompleted 8 (time_Date 2025 6 18 13 - 30 * time_Minute)] \<rparr>"

definition failedBackupWorld :: World where
  "failedBackupWorld =
     emptyWorld \<lparr> catalog :=
       [testBackup 1 BackupStatusFailed (21 / 4) (time_Date 2025 6 18 10),
        testBackup 2 BackupStatusCompleted (81 / 4) (time_Date 2025 6 18 9),
        testBackup 3 BackupStatusCompleted (21 / 2) (time_Date 2025 6 18 8)] \<rparr>"

text \<open>
  A tick during which time passes: the first reading of the clock is 2025-06-18 13:00
  UTC and every further reading is ten minutes after the one before. The one
  configuration caps the total at 5 MiB. The three completed backups of 10 MiB were
  made at 12:50, 12:05 and 10:00, so at the first reading only the last one is 60
  minutes old.
\<close>

definition tenMinuteClock :: "nat \<Rightarrow> Time" where
  "tenMinuteClock k = time_Date 2025 6 18 13 + int k * (10 * time_Minute)"

definition slowTickEnv :: Env where
  "slowTickEnv =
     quietEnv \<lparr> clock := tenMinuteClock,
                configs := [createValidBackupConfig \<lparr> MaxBackupsTotalSizeMB := 5 \<rparr>] \<rparr>"

definition agingBackup1 :: Backup where
  "agingBackup1 = testBackup 1 BackupStatusCompleted 10 (time_Date 2025 6 18 13 - 10 * time_Minute)"

definition agingBackup2 :: Backup where
  "agingBackup2 = testBackup 2 BackupStatusCompleted 10 (time_Date 2025 6 18 13 - 55 * time_Minute)"

definition agingBackup3 :: Backup where
  "agingBackup3 = testBackup 3 BackupStatusCompleted 10 (time_Date 2025 6 18 10)"

definition agingBackupsWorld :: World where
  "agingBackupsWorld = emptyWorld \<lparr> catalog := [agingBackup1, agingBackup2, agingBackup3] \<rparr>"

text \<open>
  \<open>guardedDeletes env P C w w'\<close> relates the state before and after a piece of the
  cleaner. The calls of \<open>isRecentBackup\<close> made in between are \<open>checks\<close>, each with
  the reading it took. Every backup asked about satisfies \<open>P\<close> and comes from
  \<open>C\<close>, and every reading is one of the readings taken in between. The backups
  handed to the pipeline in between are the backups of the checks that read an age of
  at least 60 minutes, in the order of the checks. No row has appeared, and every row
  that is gone shares its identifier with one of the backups handed over. It is the
  invariant behind the properties of the tick.
\<close>

definition guardedDeletes ::
  "Env \<Rightarrow> (Backup \<Rightarrow> bool) \<Rightarrow> Backup set \<Rightarrow> World \<Rightarrow> World \<Rightarrow> bool" where
  "guardedDeletes env P C w w' =
     (\<exists>checks.
        graceChecks w' = graceChecks w @ checks \<and>
        deleteCalls w' =
          deleteCalls w @
            map snd (filter (\<lambda>(t, b). 60 * time_Minute \<le> t - CreatedAt b) checks) \<and>
        list_all (\<lambda>(t, b). P b \<and> b \<in> C \<and>
                    (\<exists>k. clockReads w \<le> k \<and> k < clockReads w' \<and> t = clock env k)) checks \<and>
        clockReads w \<le> clockReads w' \<and>
        set (catalog w') \<subseteq> set (catalog w) \<and>
        list_all (\<lambda>x. x \<in> set (catalog w') \<or>
                    (\<exists>(t, b) \<in> set checks. 60 * time_Minute \<le> t - CreatedAt b \<and> ID b = ID x))
          (catalog w))"

section \<open>Period algebra: properties\<close>

lemma namedPeriods_cases:
  "p \<in> set namedPeriods \<longleftrightarrow>
     p = PeriodDay \<or> p = PeriodWeek \<or> p = PeriodMonth \<or> p = Period3Month \<or>
     p = Period6Month \<or> p = PeriodYear \<or> p = Period2Years \<or> p = Period3Years \<or>
     p = Period4Years \<or> p = Period5Years \<or> p = PeriodForever"
  by (auto simp: namedPeriods_def)

lemma periodRank_inj:
  "p \<in> set namedPeriods \<Longrightarrow> q \<in> set namedPeriods \<Longrightarrow> periodRank p = periodRank q \<Longrightarrow> p = q"
  unfolding namedPeriods_cases
  by (elim disjE; simp add: periodRank_def period_defs)

lemma CompareTo_rank:
  "p \<in> set namedPeriods \<Longrightarrow> q \<in> set namedPeriods \<Longrightarrow>
     CompareTo p q = Return (sgn (periodRank p - periodRank q))"
  unfolding namedPeriods_cases
  by (elim disjE;
      simp add: CompareTo_def ToDuration_def periodRank_def period_defs
                time_Hour_def time_Minute_def)

text \<open>
  Claim C9. Over the eleven named periods \<open>CompareTo\<close> never panics and is a total
  order: the result is one of \<open>-1\<close>, \<open>0\<close>, \<open>1\<close>; it is \<open>0\<close> exactly for equal
  periods; \<open>FOREVER\<close> compares equal to itself and is strictly above every other period;
  two finite periods compare as their canonical durations do; along the chain
  \<open>DAY, WEEK, MONTH, 3_MONTH, 6_MONTH, YEAR, 2_YEARS, 3_YEARS, 4_YEARS, 5_YEARS, FOREVER\<close>
  the comparison of two periods is the comparison of their positions; swapping the
  arguments negates the result (antisymmetry), and the order is transitive.
\<close>

theorem CompareTo_total_order:
  assumes "a \<in> set namedPeriods" and "b \<in> set namedPeriods" and "c \<in> set namedPeriods"
  shows "(CompareTo a b = Return (- 1) \<or> CompareTo a b = Return 0 \<or> CompareTo a b = Return 1) \<and>
         (CompareTo a b = Return 0 \<longleftrightarrow> a = b) \<and>
         CompareTo PeriodForever PeriodForever = Return 0 \<and>
         (a \<noteq> PeriodForever \<longrightarrow> CompareTo a PeriodForever = Return (- 1)) \<and>
         (a \<noteq> PeriodForever \<longrightarrow> b \<noteq> PeriodForever \<longrightarrow>
            (\<exists>da db. ToDuration a = Return da \<and> ToDuration b = Return db \<and>
                     CompareTo a b = Return (sgn (da - db)))) \<and>
         (\<forall>i < length namedPeriods. \<forall>j < length namedPeriods.
            CompareTo (namedPeriods ! i) (namedPeriods ! j) = Return (sgn (int i - int j))) \<and>
         (\<forall>r. CompareTo a b = Return r \<longrightarrow> CompareTo b a = Return (- r)) \<and>
         (CompareTo a b = Return (- 1) \<longrightarrow> CompareTo b c = Return (- 1) \<longrightarrow>
            CompareTo a c = Return (- 1))"
proof -
  have ab: "CompareTo a b = Return (sgn (periodRank a - periodRank b))"
    and ba: "CompareTo b a = Return (sgn (periodRank b - periodRank a))"
    and bc: "CompareTo b c = Return (sgn (periodRank b - periodRank c))"
    and ac: "CompareTo a c = Return (sgn (periodRank a - periodRank c))"
    using assms by (simp_all add: CompareTo_rank)
  have range: "CompareTo a b = Return (- 1) \<or> CompareTo a b = Return 0 \<or> CompareTo a b = Return 1"
    unfolding ab by (simp add: sgn_if)
  have zero: "CompareTo a b = Return 0 \<longleftrightarrow> a = b"
    using periodRank_inj [OF assms(1,2)] by (auto simp: ab sgn_if)
  have ff: "CompareTo PeriodForever PeriodForever = Return 0"
    by (simp add: CompareTo_def)
  have top: "a \<noteq> PeriodForever \<longrightarrow> CompareTo a PeriodForever = Return (- 1)"
    using assms(1) unfolding namedPeriods_cases
    by (elim disjE; simp add: CompareTo_def ToDuration_def period_defs)
  have dur: "a \<noteq> PeriodForever \<longrightarrow> b \<noteq> PeriodForever \<longrightarrow>
            (\<exists>da db. ToDuration a = Return da \<and> ToDuration b = Return db \<and>
                     CompareTo a b = Return (sgn (da - db)))"
    using assms(1,2) unfolding namedPeriods_cases
    by (elim disjE; simp add: CompareTo_def ToDuration_def period_defs time_Hour_def time_Minute_def)
  have m: "map periodRank namedPeriods = map int [0..<length namedPeriods]"
    by (simp add: namedPeriods_def periodRank_def period_defs upt_rec)
  have pos: "\<forall>i < length namedPeriods. periodRank (namedPeriods ! i) = int i"
  proof (intro allI impI)
    fix i assume i: "i < length namedPeriods"
    then have "periodRank (namedPeriods ! i) = map periodRank namedPeriods ! i" by simp
    also have "\<dots> = int i" unfolding m using i by simp
    finally show "periodRank (namedPeriods ! i) = int i" .
  qed
  have idx: "\<forall>i < length namedPeriods. \<forall>j < length namedPeriods.
            CompareTo (namedPeriods ! i) (namedPeriods ! j) = Return (sgn (int i - int j))"
    using pos by (simp add: CompareTo_rank)
  have anti: "\<forall>r. CompareTo a b = Return r \<longrightarrow> CompareTo b a = Return (- r)"
    unfolding ab ba by (auto simp: sgn_if)
  have trans: "CompareTo a b = Return (- 1) \<longrightarrow> CompareTo b c = Return (- 1) \<longrightarrow>
            CompareTo a c = Return (- 1)"
    unfolding ab bc ac by (auto simp: sgn_if split: if_splits)
  from range zero ff top dur idx anti trans show ?thesis by blast
qed


theorem CompareTo_total_order_witness:
  "PeriodDay \<in> set namedPeriods \<and> PeriodYear \<in> set namedPeriods \<and>
   PeriodForever \<in> set namedPeriods \<and>
   CompareTo PeriodDay PeriodYear = Return (- 1) \<and>
   CompareTo PeriodYear PeriodDay = Return 1 \<and>
   CompareTo PeriodYear PeriodForever = Return (- 1) \<and>
   CompareTo PeriodDay PeriodForever = Return (- 1)"
proof -
  have a: "PeriodDay \<in> set namedPeriods" and b: "PeriodYear \<in> set namedPeriods"
    and c: "PeriodForever \<in> set namedPeriods"
    by (simp_all add: namedPeriods_def)
  have dy: "CompareTo PeriodDay PeriodYear = Return (- 1)"
    by (simp add: CompareTo_def ToDuration_def period_defs time_Hour_def time_Minute_def)
  have yf: "CompareTo PeriodYear PeriodForever = Return (- 1)"
    using CompareTo_total_order [OF b c c] by (simp add: period_defs)
  from CompareTo_total_order [OF a b c] dy yf a b c show ?thesis by simp
qed

section \<open>Validator: properties\<close>

lemma firstFailure_append:
  "firstFailure (rs @ ss) =
     (if firstFailure rs = Return None then firstFailure ss else firstFailure rs)"
  by (induction rs rule: firstFailure.induct) auto

lemma firstFailure_Cons:
  "firstFailure (r # rs) = (if r = Return None then firstFailure rs else r)"
proof (cases r)
  case (Panic m)
  then show ?thesis by simp
next
  case (Return e)
  then show ?thesis by (cases e) simp_all
qed

lemma check_source_shape:
  "checkRetry b =
     (if IsRetryIfFailed b \<and> MaxFailedTriesCount b \<le> 0
      then Return (Some ''max failed tries count must be greater than 0'') else Return None)"
  "checkEncryptionMember b =
     (if Encryption b \<noteq> [] \<and> Encryption b \<noteq> BackupEncryptionNone \<and>
         Encryption b \<noteq> BackupEncryptionEncrypted
      then Return (Some ''encryption must be NONE or ENCRYPTED'') else Return None)"
  "checkMaxBackupSizeSign b =
     (if MaxBackupSizeMB b < 0 then Return (Some ''max backup size must be non-negative'')
      else Return None)"
  "checkMaxTotalSizeSign b =
     (if MaxBackupsTotalSizeMB b < 0
      then Return (Some ''max backups total size must be non-negative'') else Return None)"
  by (auto simp: check_defs)

lemma firstFailure_if:
  "firstFailure ((if c then Return (Some e) else Return None) # rs) =
     (if c then Return (Some e) else firstFailure rs)"
  by simp

lemma Validate_firstFailure:
  "Validate isCloud b plan = firstFailure (orderedChecks isCloud b plan)"
proof (cases "validateRetentionPolicy b plan")
  case (Panic m)
  then show ?thesis
    by (simp add: Validate_def orderedChecks_def checksBeforePlanGates_def
          checkBackupInterval_def)
next
  case (Return e)
  show ?thesis
  proof (cases e)
    case (Some msg)
    with Return show ?thesis
      by (simp add: Validate_def orderedChecks_def checksBeforePlanGates_def
          checkBackupInterval_def)
  next
    case None
    with Return show ?thesis
      unfolding Validate_def orderedChecks_def checksBeforePlanGates_def
          check_source_shape checkBackupInterval_def checkCloudEncryption_def
          checkPlanBackupSize_def checkPlanTotalSize_def append.simps firstFailure_if
      by (simp only: firstFailure.simps firstFailure_if outcome.case option.case)
  qed
qed

lemma Validate_after_early_checks:
  "firstFailure (checksBeforePlanGates isCloud b plan) = Return None \<Longrightarrow>
     Validate isCloud b plan =
       firstFailure [checkPlanBackupSize b plan, checkPlanTotalSize b plan]"
  by (simp add: Validate_firstFailure orderedChecks_def firstFailure_append)

lemma Validate_early_failure:
  "firstFailure (checksBeforePlanGates isCloud b plan) \<noteq> Return None \<Longrightarrow>
     Validate isCloud b plan = firstFailure (checksBeforePlanGates isCloud b plan)"
  by (simp add: Validate_firstFailure orderedChecks_def firstFailure_append)

lemma firstFailure_pass_iff:
  "firstFailure rs = Return None \<longleftrightarrow> (\<forall>r \<in> set rs. r = Return None)"
  by (induction rs rule: firstFailure.induct) auto

lemma validateRetentionPolicy_messages:
  "validateRetentionPolicy b plan \<noteq> Return (Some ''max backup size exceeds plan limit'') \<and>
   validateRetentionPolicy b plan \<noteq> Return (Some ''max total backups size exceeds plan limit'')"
  by (simp add: validateRetentionPolicy_def split: outcome.splits)

lemma early_checks_messages:
  "firstFailure (checksBeforePlanGates isCloud b plan) \<noteq>
     Return (Some ''max backup size exceeds plan limit'') \<and>
   firstFailure (checksBeforePlanGates isCloud b plan) \<noteq>
     Return (Some ''max total backups size exceeds plan limit'')"
  using validateRetentionPolicy_messages [of b plan]
  by (simp add: checksBeforePlanGates_def firstFailure_Cons check_defs)

text \<open>
  Claim C7. \<open>Validate\<close> runs its checks in one fixed order (backup interval,
  retention-policy sub-validation, retry and max tries, encryption membership, cloud-mode
  encryption, sign of the max backup size, sign of the max total size, then the two plan
  size gates) and its result is the result of the first check that does not pass.
  In particular a configuration that has an interval, uses the time-period policy with a
  period above the plan's maximum storage period, and also fails both plan size gates, is
  rejected with exactly \<open>storage period exceeds plan limit\<close>.
\<close>

theorem Validate_first_failing_check:
  "Validate isCloud b plan = firstFailure (orderedChecks isCloud b plan) \<and>
   orderedChecks isCloud b plan =
     [checkBackupInterval b, validateRetentionPolicy b plan, checkRetry b,
      checkEncryptionMember b, checkCloudEncryption isCloud b,
      checkMaxBackupSizeSign b, checkMaxTotalSizeSign b,
      checkPlanBackupSize b plan, checkPlanTotalSize b plan] \<and>
   (\<forall>c. (BackupIntervalID b \<noteq> uuid_Nil \<or> BackupInterval b \<noteq> None) \<and>
        (RetentionPolicyType b = RetentionPolicyTypeTimePeriod \<or> RetentionPolicyType b = '''') \<and>
        RetentionTimePeriod b \<noteq> '''' \<and> MaxStoragePeriod plan \<noteq> PeriodForever \<and>
        CompareTo (RetentionTimePeriod b) (MaxStoragePeriod plan) = Return c \<and> c > 0 \<and>
        checkPlanBackupSize b plan \<noteq> Return None \<and> checkPlanTotalSize b plan \<noteq> Return None
        \<longrightarrow> Validate isCloud b plan = Return (Some ''storage period exceeds plan limit''))"
proof (intro conjI allI impI)
  show "Validate isCloud b plan = firstFailure (orderedChecks isCloud b plan)"
    by (rule Validate_firstFailure)
  show "orderedChecks isCloud b plan =
     [checkBackupInterval b, validateRetentionPolicy b plan, checkRetry b,
      checkEncryptionMember b, checkCloudEncryption isCloud b,
      checkMaxBackupSizeSign b, checkMaxTotalSizeSign b,
      checkPlanBackupSize b plan, checkPlanTotalSize b plan]"
    by (simp add: orderedChecks_def checksBeforePlanGates_def)
next
  fix c
  assume h: "(BackupIntervalID b \<noteq> uuid_Nil \<or> BackupInterval b \<noteq> None) \<and>
        (RetentionPolicyType b = RetentionPolicyTypeTimePeriod \<or> RetentionPolicyType b = '''') \<and>
        RetentionTimePeriod b \<noteq> '''' \<and> MaxStoragePeriod plan \<noteq> PeriodForever \<and>
        CompareTo (RetentionTimePeriod b) (MaxStoragePeriod plan) = Return c \<and> c > 0 \<and>
        checkPlanBackupSize b plan \<noteq> Return None \<and> checkPlanTotalSize b plan \<noteq> Return None"
  then have vrp: "validateRetentionPolicy b plan =
      Return (Some ''storage period exceeds plan limit'')"
    by (simp add: validateRetentionPolicy_def)
  from h have "\<not> (BackupIntervalID b = uuid_Nil \<and> BackupInterval b = None)" by blast
  with vrp show "Validate isCloud b plan = Return (Some ''storage period exceeds plan limit'')"
    by (simp add: Validate_def)
qed

theorem Validate_first_failing_check_witness:
  "checkPlanBackupSize multipleLimitsConfig multipleLimitsPlan =
     Return (Some ''max backup size exceeds plan limit'') \<and>
   checkPlanTotalSize multipleLimitsConfig multipleLimitsPlan =
     Return (Some ''max total backups size exceeds plan limit'') \<and>
   CompareTo (RetentionTimePeriod multipleLimitsConfig) (MaxStoragePeriod multipleLimitsPlan) =
     Return 1 \<and>
   Validate False multipleLimitsConfig multipleLimitsPlan =
     Return (Some ''storage period exceeds plan limit'')"
proof -
  have cmp: "CompareTo (RetentionTimePeriod multipleLimitsConfig)
               (MaxStoragePeriod multipleLimitsPlan) = Return 1"
    by (simp add: validator_example_defs CompareTo_def ToDuration_def period_defs
          time_Hour_def time_Minute_def)
  have g1: "checkPlanBackupSize multipleLimitsConfig multipleLimitsPlan =
     Return (Some ''max backup size exceeds plan limit'')"
    by (simp add: validator_example_defs checkPlanBackupSize_def)
  have g2: "checkPlanTotalSize multipleLimitsConfig multipleLimitsPlan =
     Return (Some ''max total backups size exceeds plan limit'')"
    by (simp add: validator_example_defs checkPlanTotalSize_def)
  have pre: "(BackupIntervalID multipleLimitsConfig \<noteq> uuid_Nil \<or>
              BackupInterval multipleLimitsConfig \<noteq> None) \<and>
        (RetentionPolicyType multipleLimitsConfig = RetentionPolicyTypeTimePeriod \<or>
         RetentionPolicyType multipleLimitsConfig = '''') \<and>
        RetentionTimePeriod multipleLimitsConfig \<noteq> '''' \<and>
        MaxStoragePeriod multipleLimitsPlan \<noteq> PeriodForever"
    by (simp add: validator_example_defs period_defs)
  from Validate_first_failing_check [of False multipleLimitsConfig multipleLimitsPlan]
  have "\<forall>c. (BackupIntervalID multipleLimitsConfig \<noteq> uuid_Nil \<or>
              BackupInterval multipleLimitsConfig \<noteq> None) \<and>
        (RetentionPolicyType multipleLimitsConfig = RetentionPolicyTypeTimePeriod \<or>
         RetentionPolicyType multipleLimitsConfig = []) \<and>
        RetentionTimePeriod multipleLimitsConfig \<noteq> [] \<and>
        MaxStoragePeriod multipleLimitsPlan \<noteq> PeriodForever \<and>
        CompareTo (RetentionTimePeriod multipleLimitsConfig)
          (MaxStoragePeriod multipleLimitsPlan) = Return c \<and> c > 0 \<and>
        checkPlanBackupSize multipleLimitsConfig multipleLimitsPlan \<noteq> Return None \<and>
        checkPlanTotalSize multipleLimitsConfig multipleLimitsPlan \<noteq> Return None
        \<longrightarrow> Validate False multipleLimitsConfig multipleLimitsPlan =
              Return (Some ''storage period exceeds plan limit'')"
    by blast
  from this [rule_format, of 1] cmp g1 g2 pre
  have "Validate False multipleLimitsConfig multipleLimitsPlan =
     Return (Some ''storage period exceeds plan limit'')"
    by simp
  with cmp g1 g2 show ?thesis by simp
qed

text \<open>
  Claim C8 as stated speaks of every configuration. A configuration without a backup
  interval and with max backup size 0, under a plan that caps the backup size at 500,
  is rejected by the first check: the result is \<open>backup interval is required\<close>,
  not the plan-limit message.
\<close>

theorem Validate_plan_gate_counterexample:
  "PlanMaxBackupSizeMB plan500MB > 0 \<and>
   MaxBackupSizeMB noIntervalUnlimitedSizeConfig = 0 \<and>
   Validate False noIntervalUnlimitedSizeConfig plan500MB =
     Return (Some ''backup interval is required'') \<and>
   Validate False noIntervalUnlimitedSizeConfig plan500MB \<noteq>
     Return (Some ''max backup size exceeds plan limit'')"
  by (simp add: noIntervalUnlimitedSizeConfig_def plan500MB_def createValidBackupConfig_def
        createUnlimitedPlan_def Validate_def)

text \<open>
  Claim C8, as amended. If the plan's max backup size is positive and the configuration's
  value is 0 or above the plan's, validation does not succeed, and the result is exactly
  \<open>max backup size exceeds plan limit\<close> whenever the seven earlier checks pass. The same
  holds for the total size with \<open>max total backups size exceeds plan limit\<close>, whenever
  the seven earlier checks and the backup-size gate pass. If a plan value is 0, the
  corresponding gate passes for every configuration value and its message is never the
  result; with both plan values 0 and the earlier checks passed, validation succeeds.
\<close>

theorem Validate_plan_size_gates:
  "(PlanMaxBackupSizeMB plan > 0 \<and>
      (MaxBackupSizeMB b = 0 \<or> MaxBackupSizeMB b > PlanMaxBackupSizeMB plan) \<longrightarrow>
        Validate isCloud b plan \<noteq> Return None \<and>
        (firstFailure (checksBeforePlanGates isCloud b plan) = Return None \<longrightarrow>
           Validate isCloud b plan = Return (Some ''max backup size exceeds plan limit''))) \<and>
   (PlanMaxBackupsTotalSizeMB plan > 0 \<and>
      (MaxBackupsTotalSizeMB b = 0 \<or>
       MaxBackupsTotalSizeMB b > PlanMaxBackupsTotalSizeMB plan) \<longrightarrow>
        Validate isCloud b plan \<noteq> Return None \<and>
        (firstFailure (checksBeforePlanGates isCloud b plan) = Return None \<and>
         checkPlanBackupSize b plan = Return None \<longrightarrow>
           Validate isCloud b plan =
             Return (Some ''max total backups size exceeds plan limit''))) \<and>
   (PlanMaxBackupSizeMB plan = 0 \<longrightarrow>
      checkPlanBackupSize b plan = Return None \<and>
      Validate isCloud b plan \<noteq> Return (Some ''max backup size exceeds plan limit'')) \<and>
   (PlanMaxBackupsTotalSizeMB plan = 0 \<longrightarrow>
      checkPlanTotalSize b plan = Return None \<and>
      Validate isCloud b plan \<noteq> Return (Some ''max total backups size exceeds plan limit'')) \<and>
   (PlanMaxBackupSizeMB plan = 0 \<and> PlanMaxBackupsTotalSizeMB plan = 0 \<and>
    firstFailure (checksBeforePlanGates isCloud b plan) = Return None \<longrightarrow>
      Validate isCloud b plan = Return None)"
proof -
  let ?early = "firstFailure (checksBeforePlanGates isCloud b plan)"
  have V: "Validate isCloud b plan =
      (if ?early = Return None
       then firstFailure [checkPlanBackupSize b plan, checkPlanTotalSize b plan]
       else ?early)"
    by (simp add: Validate_firstFailure orderedChecks_def firstFailure_append)
  note msgs = early_checks_messages [of isCloud b plan]
  have size_gate: "PlanMaxBackupSizeMB plan > 0 \<and>
      (MaxBackupSizeMB b = 0 \<or> MaxBackupSizeMB b > PlanMaxBackupSizeMB plan) \<longrightarrow>
        Validate isCloud b plan \<noteq> Return None \<and>
        (?early = Return None \<longrightarrow>
           Validate isCloud b plan = Return (Some ''max backup size exceeds plan limit''))"
    unfolding V by (simp add: checkPlanBackupSize_def)
  have total_gate: "PlanMaxBackupsTotalSizeMB plan > 0 \<and>
      (MaxBackupsTotalSizeMB b = 0 \<or>
       MaxBackupsTotalSizeMB b > PlanMaxBackupsTotalSizeMB plan) \<longrightarrow>
        Validate isCloud b plan \<noteq> Return None \<and>
        (?early = Return None \<and> checkPlanBackupSize b plan = Return None \<longrightarrow>
           Validate isCloud b plan =
             Return (Some ''max total backups size exceeds plan limit''))"
    unfolding V by (simp add: checkPlanTotalSize_def firstFailure_Cons)
  have size_free: "PlanMaxBackupSizeMB plan = 0 \<longrightarrow>
      checkPlanBackupSize b plan = Return None \<and>
      Validate isCloud b plan \<noteq> Return (Some ''max backup size exceeds plan limit'')"
    unfolding V using msgs by (simp add: checkPlanBackupSize_def checkPlanTotalSize_def)
  have total_free: "PlanMaxBackupsTotalSizeMB plan = 0 \<longrightarrow>
      checkPlanTotalSize b plan = Return None \<and>
      Validate isCloud b plan \<noteq> Return (Some ''max total backups size exceeds plan limit'')"
    unfolding V using msgs by (simp add: checkPlanBackupSize_def checkPlanTotalSize_def)
  have both_free: "PlanMaxBackupSizeMB plan = 0 \<and> PlanMaxBackupsTotalSizeMB plan = 0 \<and>
      ?early = Return None \<longrightarrow> Validate isCloud b plan = Return None"
    unfolding V by (simp add: checkPlanBackupSize_def checkPlanTotalSize_def)
  from size_gate total_gate size_free total_free both_free show ?thesis by blast
qed

theorem Validate_plan_size_gates_witness:
  "PlanMaxBackupSizeMB plan500MB > 0 \<and> MaxBackupSizeMB unlimitedSizeConfig = 0 \<and>
   firstFailure (checksBeforePlanGates False unlimitedSizeConfig plan500MB) = Return None \<and>
   Validate False unlimitedSizeConfig plan500MB =
     Return (Some ''max backup size exceeds plan limit'') \<and>
   PlanMaxBackupsTotalSizeMB plan500MB = 0 \<and>
   Validate False unlimitedSizeConfig plan500MB \<noteq>
     Return (Some ''max total backups size exceeds plan limit'')"
proof -
  have p: "PlanMaxBackupSizeMB plan500MB > 0" "PlanMaxBackupsTotalSizeMB plan500MB = 0"
    by (simp_all add: plan500MB_def createUnlimitedPlan_def)
  have c: "MaxBackupSizeMB unlimitedSizeConfig = 0"
    by (simp add: unlimitedSizeConfig_def createValidBackupConfig_def)
  have e: "firstFailure (checksBeforePlanGates False unlimitedSizeConfig plan500MB) =
      Return None"
    by (simp add: checksBeforePlanGates_def check_defs validateRetentionPolicy_def
          unlimitedSizeConfig_def createValidBackupConfig_def plan500MB_def
          createUnlimitedPlan_def config_const_defs period_defs uuid_Nil_def)
  from Validate_plan_size_gates [of plan500MB unlimitedSizeConfig False] p c e
  show ?thesis by simp
qed

section \<open>GFS keep-set builder: properties\<close>

lemma keepHour_proj:
  "hoursSeen (keepHour h st b) =
     (if h > 0 \<and> hoursKept st < h \<and> hourKey b \<notin> hoursSeen st
      then insert (hourKey b) (hoursSeen st) else hoursSeen st)"
  "hoursKept (keepHour h st b) =
     (if h > 0 \<and> hoursKept st < h \<and> hourKey b \<notin> hoursSeen st
      then hoursKept st + 1 else hoursKept st)"
  "keep (keepHour h st b) =
     keep st \<union> (if h > 0 \<and> hoursKept st < h \<and> hourKey b \<notin> hoursSeen st then {ID b} else {})"
  "daysSeen (keepHour h st b) = daysSeen st" "daysKept (keepHour h st b) = daysKept st"
  "weeksSeen (keepHour h st b) = weeksSeen st" "weeksKept (keepHour h st b) = weeksKept st"
  "monthsSeen (keepHour h st b) = monthsSeen st" "monthsKept (keepHour h st b) = monthsKept st"
  "yearsSeen (keepHour h st b) = yearsSeen st" "yearsKept (keepHour h st b) = yearsKept st"
  by (simp_all add: keepHour_def)

lemma keepDay_proj:
  "daysSeen (keepDay d st b) =
     (if d > 0 \<and> daysKept st < d \<and> dayKey b \<notin> daysSeen st
      then insert (dayKey b) (daysSeen st) else daysSeen st)"
  "daysKept (keepDay d st b) =
     (if d > 0 \<and> daysKept st < d \<and> dayKey b \<notin> daysSeen st
      then daysKept st + 1 else daysKept st)"
  "keep (keepDay d st b) =
     keep st \<union> (if d > 0 \<and> daysKept st < d \<and> dayKey b \<notin> daysSeen st then {ID b} else {})"
  "hoursSeen (keepDay d st b) = hoursSeen st" "hoursKept (keepDay d st b) = hoursKept st"
  "weeksSeen (keepDay d st b) = weeksSeen st" "weeksKept (keepDay d st b) = weeksKept st"
  "monthsSeen (keepDay d st b) = monthsSeen st" "monthsKept (keepDay d st b) = monthsKept st"
  "yearsSeen (keepDay d st b) = yearsSeen st" "yearsKept (keepDay d st b) = yearsKept st"
  by (simp_all add: keepDay_def)

lemma keepWeek_proj:
  "weeksSeen (keepWeek w st b) =
     (if w > 0 \<and> weeksKept st < w \<and> weekKey b \<notin> weeksSeen st
      then insert (weekKey b) (weeksSeen st) else weeksSeen st)"
  "weeksKept (keepWeek w st b) =
     (if w > 0 \<and> weeksKept st < w \<and> weekKey b \<notin> weeksSeen st
      then weeksKept st + 1 else weeksKept st)"
  "keep (keepWeek w st b) =
     keep st \<union> (if w > 0 \<and> weeksKept st < w \<and> weekKey b \<notin> weeksSeen st then {ID b} else {})"
  "hoursSeen (keepWeek w st b) = hoursSeen st" "hoursKept (keepWeek w st b) = hoursKept st"
  "daysSeen (keepWeek w st b) = daysSeen st" "daysKept (keepWeek w st b) = daysKept st"
  "monthsSeen (keepWeek w st b) = monthsSeen st" "monthsKept (keepWeek w st b) = monthsKept st"
  "yearsSeen (keepWeek w st b) = yearsSeen st" "yearsKept (keepWeek w st b) = yearsKept st"
  by (simp_all add: keepWeek_def)

lemma keepMonth_proj:
  "monthsSeen (keepMonth m st b) =
     (if m > 0 \<and> monthsKept st < m \<and> monthKey b \<notin> monthsSeen st
      then insert (monthKey b) (monthsSeen st) else monthsSeen st)"
  "monthsKept (keepMonth m st b) =
     (if m > 0 \<and> monthsKept st < m \<and> monthKey b \<notin> monthsSeen st
      then monthsKept st + 1 else monthsKept st)"
  "keep (keepMonth m st b) =
     keep st \<union> (if m > 0 \<and> monthsKept st < m \<and> monthKey b \<notin> monthsSeen st then {ID b} else {})"
  "hoursSeen (keepMonth m st b) = hoursSeen st" "hoursKept (keepMonth m st b) = hoursKept st"
  "daysSeen (keepMonth m st b) = daysSeen st" "daysKept (keepMonth m st b) = daysKept st"
  "weeksSeen (keepMonth m st b) = weeksSeen st" "weeksKept (keepMonth m st b) = weeksKept st"
  "yearsSeen (keepMonth m st b) = yearsSeen st" "yearsKept (keepMonth m st b) = yearsKept st"
  by (simp_all add: keepMonth_def)

lemma keepYear_proj:
  "yearsSeen (keepYear y st b) =
     (if y > 0 \<and> yearsKept st < y \<and> yearKey b \<notin> yearsSeen st
      then insert (yearKey b) (yearsSeen st) else yearsSeen st)"
  "yearsKept (keepYear y st b) =
     (if y > 0 \<and> yearsKept st < y \<and> yearKey b \<notin> yearsSeen st
      then yearsKept st + 1 else yearsKept st)"
  "keep (keepYear y st b) =
     keep st \<union> (if y > 0 \<and> yearsKept st < y \<and> yearKey b \<notin> yearsSeen st then {ID b} else {})"
  "hoursSeen (keepYear y st b) = hoursSeen st" "hoursKept (keepYear y st b) = hoursKept st"
  "daysSeen (keepYear y st b) = daysSeen st" "daysKept (keepYear y st b) = daysKept st"
  "weeksSeen (keepYear y st b) = weeksSeen st" "weeksKept (keepYear y st b) = weeksKept st"
  "monthsSeen (keepYear y st b) = monthsSeen st" "monthsKept (keepYear y st b) = monthsKept st"
  by (simp_all add: keepYear_def)

lemmas keepSlot_proj = keepHour_proj keepDay_proj keepWeek_proj keepMonth_proj keepYear_proj

lemma gfsStep_hours:
  "hoursSeen (gfsStep h d w m y st b) =
     (if h > 0 \<and> hoursKept st < h \<and> hourKey b \<notin> hoursSeen st
      then insert (hourKey b) (hoursSeen st) else hoursSeen st)"
  "hoursKept (gfsStep h d w m y st b) =
     (if h > 0 \<and> hoursKept st < h \<and> hourKey b \<notin> hoursSeen st
      then hoursKept st + 1 else hoursKept st)"
  by (simp_all only: gfsStep_def keepSlot_proj)

lemma gfsStep_days:
  "daysSeen (gfsStep h d w m y st b) =
     (if d > 0 \<and> daysKept st < d \<and> dayKey b \<notin> daysSeen st
      then insert (dayKey b) (daysSeen st) else daysSeen st)"
  "daysKept (gfsStep h d w m y st b) =
     (if d > 0 \<and> daysKept st < d \<and> dayKey b \<notin> daysSeen st
      then daysKept st + 1 else daysKept st)"
  by (simp_all only: gfsStep_def keepSlot_proj)

lemma gfsStep_weeks:
  "weeksSeen (gfsStep h d w m y st b) =
     (if w > 0 \<and> weeksKept st < w \<and> weekKey b \<notin> weeksSeen st
      then insert (weekKey b) (weeksSeen st) else weeksSeen st)"
  "weeksKept (gfsStep h d w m y st b) =
     (if w > 0 \<and> weeksKept st < w \<and> weekKey b \<notin> weeksSeen st
      then weeksKept st + 1 else weeksKept st)"
  by (simp_all only: gfsStep_def keepSlot_proj)

lemma gfsStep_months:
  "monthsSeen (gfsStep h d w m y st b) =
     (if m > 0 \<and> monthsKept st < m \<and> monthKey b \<notin> monthsSeen st
      then insert (monthKey b) (monthsSeen st) else monthsSeen st)"
  "monthsKept (gfsStep h d w m y st b) =
     (if m > 0 \<and> monthsKept st < m \<and> monthKey b \<notin> monthsSeen st
      then monthsKept st + 1 else monthsKept st)"
  by (simp_all only: gfsStep_def keepSlot_proj)

lemma gfsStep_years:
  "yearsSeen (gfsStep h d w m y st b) =
     (if y > 0 \<and> yearsKept st < y \<and> yearKey b \<notin> yearsSeen st
      then insert (yearKey b) (yearsSeen st) else yearsSeen st)"
  "yearsKept (gfsStep h d w m y st b) =
     (if y > 0 \<and> yearsKept st < y \<and> yearKey b \<notin> yearsSeen st
      then yearsKept st + 1 else yearsKept st)"
  by (simp_all only: gfsStep_def keepSlot_proj)

lemma gfsStep_keep:
  "keep (gfsStep h d w m y st b) =
     keep st \<union>
     (if h > 0 \<and> hoursKept st < h \<and> hourKey b \<notin> hoursSeen st then {ID b} else {}) \<union>
     (if d > 0 \<and> daysKept st < d \<and> dayKey b \<notin> daysSeen st then {ID b} else {}) \<union>
     (if w > 0 \<and> weeksKept st < w \<and> weekKey b \<notin> weeksSeen st then {ID b} else {}) \<union>
     (if m > 0 \<and> monthsKept st < m \<and> monthKey b \<notin> monthsSeen st then {ID b} else {}) \<union>
     (if y > 0 \<and> yearsKept st < y \<and> yearKey b \<notin> yearsSeen st then {ID b} else {})"
  by (simp only: gfsStep_def keepSlot_proj)

lemma gfsLoop_hoursKept:
  "hoursKept (gfsLoop h d w m y st bs) =
     hoursKept st + int (length (slotKept hourKey h (hoursSeen st) (hoursKept st) bs))"
  by (induction bs arbitrary: st) (simp_all add: gfsStep_hours)

lemma gfsLoop_daysKept:
  "daysKept (gfsLoop h d w m y st bs) =
     daysKept st + int (length (slotKept dayKey d (daysSeen st) (daysKept st) bs))"
  by (induction bs arbitrary: st) (simp_all add: gfsStep_days)

lemma gfsLoop_weeksKept:
  "weeksKept (gfsLoop h d w m y st bs) =
     weeksKept st + int (length (slotKept weekKey w (weeksSeen st) (weeksKept st) bs))"
  by (induction bs arbitrary: st) (simp_all add: gfsStep_weeks)

lemma gfsLoop_monthsKept:
  "monthsKept (gfsLoop h d w m y st bs) =
     monthsKept st + int (length (slotKept monthKey m (monthsSeen st) (monthsKept st) bs))"
  by (induction bs arbitrary: st) (simp_all add: gfsStep_months)

lemma gfsLoop_yearsKept:
  "yearsKept (gfsLoop h d w m y st bs) =
     yearsKept st + int (length (slotKept yearKey y (yearsSeen st) (yearsKept st) bs))"
  by (induction bs arbitrary: st) (simp_all add: gfsStep_years)

lemma gfsLoop_keep:
  "keep (gfsLoop h d w m y st bs) =
     keep st \<union>
     ID ` set (slotKept hourKey h (hoursSeen st) (hoursKept st) bs) \<union>
     ID ` set (slotKept dayKey d (daysSeen st) (daysKept st) bs) \<union>
     ID ` set (slotKept weekKey w (weeksSeen st) (weeksKept st) bs) \<union>
     ID ` set (slotKept monthKey m (monthsSeen st) (monthsKept st) bs) \<union>
     ID ` set (slotKept yearKey y (yearsSeen st) (yearsKept st) bs)"
proof (induction bs arbitrary: st)
  case Nil
  show ?case by simp
next
  case (Cons b bs)
  let ?H = "h > 0 \<and> hoursKept st < h \<and> hourKey b \<notin> hoursSeen st"
  let ?D = "d > 0 \<and> daysKept st < d \<and> dayKey b \<notin> daysSeen st"
  let ?W = "w > 0 \<and> weeksKept st < w \<and> weekKey b \<notin> weeksSeen st"
  let ?M = "m > 0 \<and> monthsKept st < m \<and> monthKey b \<notin> monthsSeen st"
  let ?Y = "y > 0 \<and> yearsKept st < y \<and> yearKey b \<notin> yearsSeen st"
  have sH: "ID ` set (slotKept hourKey h (hoursSeen st) (hoursKept st) (b # bs)) =
      (if ?H then {ID b} else {}) \<union>
      ID ` set (slotKept hourKey h (hoursSeen (gfsStep h d w m y st b))
                  (hoursKept (gfsStep h d w m y st b)) bs)"
    by (simp add: gfsStep_hours)
  have sD: "ID ` set (slotKept dayKey d (daysSeen st) (daysKept st) (b # bs)) =
      (if ?D then {ID b} else {}) \<union>
      ID ` set (slotKept dayKey d (daysSeen (gfsStep h d w m y st b))
                  (daysKept (gfsStep h d w m y st b)) bs)"
    by (simp add: gfsStep_days)
  have sW: "ID ` set (slotKept weekKey w (weeksSeen st) (weeksKept st) (b # bs)) =
      (if ?W then {ID b} else {}) \<union>
      ID ` set (slotKept weekKey w (weeksSeen (gfsStep h d w m y st b))
                  (weeksKept (gfsStep h d w m y st b)) bs)"
    by (simp add: gfsStep_weeks)
  have sM: "ID ` set (slotKept monthKey m (monthsSeen st) (monthsKept st) (b # bs)) =
      (if ?M then {ID b} else {}) \<union>
      ID ` set (slotKept monthKey m (monthsSeen (gfsStep h d w m y st b))
                  (monthsKept (gfsStep h d w m y st b)) bs)"
    by (simp add: gfsStep_months)
  have sY: "ID ` set (slotKept yearKey y (yearsSeen st) (yearsKept st) (b # bs)) =
      (if ?Y then {ID b} else {}) \<union>
      ID ` set (slotKept yearKey y (yearsSeen (gfsStep h d w m y st b))
                  (yearsKept (gfsStep h d w m y st b)) bs)"
    by (simp add: gfsStep_years)
  have "keep (gfsLoop h d w m y st (b # bs)) = keep (gfsLoop h d w m y (gfsStep h d w m y st b) bs)"
    by simp
  also note Cons.IH [of "gfsStep h d w m y st b"]
  finally show ?case
    unfolding sH sD sW sM sY gfsStep_keep by blast
qed

lemma slotKept_length:
  "kept \<le> budget \<Longrightarrow> int (length (slotKept key budget seen kept bs)) \<le> budget - kept"
proof (induction bs arbitrary: seen kept)
  case Nil
  then show ?case by simp
next
  case (Cons b bs)
  show ?case
  proof (cases "budget > 0 \<and> kept < budget \<and> key b \<notin> seen")
    case True
    then have "kept + 1 \<le> budget" by simp
    from Cons.IH [OF this, of "insert (key b) seen"] True show ?thesis by simp
  next
    case False
    then have "slotKept key budget seen kept (b # bs) = slotKept key budget seen kept bs"
      by auto
    with Cons.IH [OF Cons.prems, of seen] show ?thesis by simp
  qed
qed

lemma slotKept_no_budget:
  "budget \<le> 0 \<Longrightarrow> slotKept key budget seen kept bs = []"
  by (induction bs arbitrary: seen kept) simp_all

lemma slotKept_subset:
  "set (slotKept key budget seen kept bs) \<subseteq> set bs"
  by (induction bs arbitrary: seen kept) auto

lemma slotKept_unseen:
  "b \<in> set (slotKept key budget seen kept bs) \<Longrightarrow> key b \<notin> seen"
  by (induction bs arbitrary: seen kept) (auto split: if_splits)

lemma slotKept_distinct_keys:
  "distinct (map key (slotKept key budget seen kept bs))"
proof (induction bs arbitrary: seen kept)
  case Nil
  show ?case by simp
next
  case (Cons b bs)
  show ?case
  proof (cases "budget > 0 \<and> kept < budget \<and> key b \<notin> seen")
    case True
    have "key b \<notin> key ` set (slotKept key budget (insert (key b) seen) (kept + 1) bs)"
    proof
      assume "key b \<in> key ` set (slotKept key budget (insert (key b) seen) (kept + 1) bs)"
      then obtain x where x: "x \<in> set (slotKept key budget (insert (key b) seen) (kept + 1) bs)"
        and kx: "key x = key b" by auto
      from slotKept_unseen [OF x] kx show False by simp
    qed
    with True Cons.IH [of "insert (key b) seen" "kept + 1"] show ?thesis by simp
  next
    case False
    then have "slotKept key budget seen kept (b # bs) = slotKept key budget seen kept bs"
      by auto
    with Cons.IH [of seen kept] show ?thesis by simp
  qed
qed

lemma slotKept_first:
  "b \<in> set (slotKept key budget seen kept bs) \<Longrightarrow>
     \<exists>pre post. bs = pre @ b # post \<and> key b \<notin> key ` set pre"
proof (induction bs arbitrary: seen kept)
  case Nil
  then show ?case by simp
next
  case (Cons a bs)
  show ?case
  proof (cases "budget > 0 \<and> kept < budget \<and> key a \<notin> seen")
    case True
    show ?thesis
    proof (cases "b = a")
      case True
      then have "a # bs = [] @ b # bs \<and> key b \<notin> key ` set []" by simp
      then show ?thesis by blast
    next
      case False
      with True Cons.prems
      have in_rest: "b \<in> set (slotKept key budget (insert (key a) seen) (kept + 1) bs)" by simp
      from Cons.IH [OF in_rest] obtain pre post
        where p: "bs = pre @ b # post" "key b \<notin> key ` set pre" by blast
      from slotKept_unseen [OF in_rest] have "key b \<noteq> key a" by simp
      with p have "a # bs = (a # pre) @ b # post \<and> key b \<notin> key ` set (a # pre)" by simp
      then show ?thesis by blast
    qed
  next
    case False
    with Cons.prems have in_rest: "b \<in> set (slotKept key budget seen kept bs)" by simp
    from Cons.IH [OF in_rest] obtain pre post
      where p: "bs = pre @ b # post" "key b \<notin> key ` set pre" by blast
    show ?thesis
    proof (cases "key a = key b")
      case same: True
      from slotKept_unseen [OF in_rest] have unseen: "key b \<notin> seen" .
      from slotKept_subset in_rest have "slotKept key budget seen kept bs \<noteq> []" by auto
      then have pos: "budget > 0" using slotKept_no_budget [of budget key seen kept bs] by fastforce
      show ?thesis
      proof (cases "kept < budget")
        case True
        with False pos same unseen show ?thesis by simp
      next
        case full: False
        have "slotKept key budget seen kept bs = []"
          using full by (induction bs arbitrary: seen) simp_all
        with in_rest show ?thesis by simp
      qed
    next
      case diff: False
      with p have "a # bs = (a # pre) @ b # post \<and> key b \<notin> key ` set (a # pre)" by auto
      then show ?thesis by blast
    qed
  qed
qed

lemma slotKept_newest:
  assumes "newestFirst bs" and "b \<in> set (slotKept key budget seen kept bs)"
    and "b' \<in> set bs" and "key b' = key b"
  shows "CreatedAt b' \<le> CreatedAt b"
proof -
  from slotKept_first [OF assms(2)] obtain pre post
    where p: "bs = pre @ b # post" "key b \<notin> key ` set pre" by blast
  from p(2) have "\<forall>x \<in> set pre. key x \<noteq> key b" by (metis imageI)
  with assms(3,4) p(1) have "b' = b \<or> b' \<in> set post" by auto
  moreover from assms(1) p(1) have "\<forall>x \<in> set post. CreatedAt x \<le> CreatedAt b"
    by (simp add: newestFirst_def sorted_wrt_append)
  ultimately show ?thesis by auto
qed

lemma keep_as_classes:
  "buildGFSKeepSet backups hours days weeks months years =
     ID ` set (keptByClass HourSlot backups hours days weeks months years) \<union>
     ID ` set (keptByClass DaySlot backups hours days weeks months years) \<union>
     ID ` set (keptByClass WeekSlot backups hours days weeks months years) \<union>
     ID ` set (keptByClass MonthSlot backups hours days weeks months years) \<union>
     ID ` set (keptByClass YearSlot backups hours days weeks months years)"
  by (simp add: buildGFSKeepSet_def gfsLoop_keep gfsInit_def)

lemma card_image_list: "card (f ` set xs) \<le> length xs"
  by (metis card_image_le card_length le_trans List.finite_set)

lemma card_keep_le:
  "card (buildGFSKeepSet backups hours days weeks months years) \<le>
     length (keptByClass HourSlot backups hours days weeks months years) +
     length (keptByClass DaySlot backups hours days weeks months years) +
     length (keptByClass WeekSlot backups hours days weeks months years) +
     length (keptByClass MonthSlot backups hours days weeks months years) +
     length (keptByClass YearSlot backups hours days weeks months years)"
proof -
  let ?K = "\<lambda>c. keptByClass c backups hours days weeks months years"
  have "card (buildGFSKeepSet backups hours days weeks months years) \<le>
      card (ID ` set (?K HourSlot)) + card (ID ` set (?K DaySlot)) +
      card (ID ` set (?K WeekSlot)) + card (ID ` set (?K MonthSlot)) +
      card (ID ` set (?K YearSlot))"
    unfolding keep_as_classes
    by (intro order_trans [OF card_Un_le] add_mono order_refl)
  also have "\<dots> \<le> length (?K HourSlot) + length (?K DaySlot) + length (?K WeekSlot) +
      length (?K MonthSlot) + length (?K YearSlot)"
    by (intro add_mono card_image_list)
  finally show ?thesis .
qed

lemma gfsAdditiveScenario_keep:
  "buildGFSKeepSet gfsAdditiveScenario 0 1 2 2 0 = {1, 2, 3}"
  by code_simp

lemma gfsWeekBoundaryScenario_keep:
  "buildGFSKeepSet gfsWeekBoundaryScenario 0 0 2 0 0 = {1, 2}"
  by code_simp

lemma gfsAdditiveScenario_newestFirst: "newestFirst gfsAdditiveScenario"
  by code_simp

lemma gfsAdditiveScenario_day: "keptByClass DaySlot gfsAdditiveScenario 0 1 2 2 0 = [gfsBackup 1 (time_Date 2025 6 18 12)]"
  by code_simp

text \<open>
  Claim C3. For every backup list and every budget tuple of nonnegative numbers, the
  builder keeps at most budget many backups per slot class: each of the five counters
  ends at most at its budget, each class keeps at most budget many backups, and the
  keep-set, which is the union of the identifiers kept by the five classes, is finite
  with at most \<open>hours + days + weeks + months + years\<close> elements. With all budgets
  zero the keep-set is empty, and so it is for the empty list.
\<close>

theorem buildGFSKeepSet_budget:
  assumes "0 \<le> hours" and "0 \<le> days" and "0 \<le> weeks" and "0 \<le> months" and "0 \<le> years"
  shows
    "hoursKept (gfsLoop hours days weeks months years gfsInit backups) \<le> hours \<and>
     daysKept (gfsLoop hours days weeks months years gfsInit backups) \<le> days \<and>
     weeksKept (gfsLoop hours days weeks months years gfsInit backups) \<le> weeks \<and>
     monthsKept (gfsLoop hours days weeks months years gfsInit backups) \<le> months \<and>
     yearsKept (gfsLoop hours days weeks months years gfsInit backups) \<le> years \<and>
     int (length (keptByClass HourSlot backups hours days weeks months years)) \<le> hours \<and>
     int (length (keptByClass DaySlot backups hours days weeks months years)) \<le> days \<and>
     int (length (keptByClass WeekSlot backups hours days weeks months years)) \<le> weeks \<and>
     int (length (keptByClass MonthSlot backups hours days weeks months years)) \<le> months \<and>
     int (length (keptByClass YearSlot backups hours days weeks months years)) \<le> years \<and>
     buildGFSKeepSet backups hours days weeks months years =
       ID ` set (keptByClass HourSlot backups hours days weeks months years) \<union>
       ID ` set (keptByClass DaySlot backups hours days weeks months years) \<union>
       ID ` set (keptByClass WeekSlot backups hours days weeks months years) \<union>
       ID ` set (keptByClass MonthSlot backups hours days weeks months years) \<union>
       ID ` set (keptByClass YearSlot backups hours days weeks months years) \<and>
     finite (buildGFSKeepSet backups hours days weeks months years) \<and>
     int (card (buildGFSKeepSet backups hours days weeks months years)) \<le>
       hours + days + weeks + months + years \<and>
     (hours = 0 \<and> days = 0 \<and> weeks = 0 \<and> months = 0 \<and> years = 0 \<longrightarrow>
        buildGFSKeepSet backups hours days weeks months years = {}) \<and>
     buildGFSKeepSet [] hours days weeks months years = {}"
proof -
  let ?st = "gfsLoop hours days weeks months years gfsInit backups"
  let ?K = "\<lambda>c. keptByClass c backups hours days weeks months years"
  have lh: "int (length (?K HourSlot)) \<le> hours"
    using slotKept_length [OF assms(1), of hourKey "{}" backups] by simp
  have ld: "int (length (?K DaySlot)) \<le> days"
    using slotKept_length [OF assms(2), of dayKey "{}" backups] by simp
  have lw: "int (length (?K WeekSlot)) \<le> weeks"
    using slotKept_length [OF assms(3), of weekKey "{}" backups] by simp
  have lm: "int (length (?K MonthSlot)) \<le> months"
    using slotKept_length [OF assms(4), of monthKey "{}" backups] by simp
  have ly: "int (length (?K YearSlot)) \<le> years"
    using slotKept_length [OF assms(5), of yearKey "{}" backups] by simp
  have ch: "hoursKept ?st \<le> hours" using lh by (simp add: gfsLoop_hoursKept gfsInit_def)
  have cd: "daysKept ?st \<le> days" using ld by (simp add: gfsLoop_daysKept gfsInit_def)
  have cw: "weeksKept ?st \<le> weeks" using lw by (simp add: gfsLoop_weeksKept gfsInit_def)
  have cm: "monthsKept ?st \<le> months" using lm by (simp add: gfsLoop_monthsKept gfsInit_def)
  have cy: "yearsKept ?st \<le> years" using ly by (simp add: gfsLoop_yearsKept gfsInit_def)
  note un = keep_as_classes [of backups hours days weeks months years]
  have fin: "finite (buildGFSKeepSet backups hours days weeks months years)"
    unfolding un by simp
  have card: "int (card (buildGFSKeepSet backups hours days weeks months years)) \<le>
      hours + days + weeks + months + years"
    using card_keep_le [of backups hours days weeks months years] lh ld lw lm ly by linarith
  have zero: "hours = 0 \<and> days = 0 \<and> weeks = 0 \<and> months = 0 \<and> years = 0 \<longrightarrow>
        buildGFSKeepSet backups hours days weeks months years = {}"
    unfolding un by (simp add: slotKept_no_budget)
  have empty: "buildGFSKeepSet [] hours days weeks months years = {}"
    by (simp add: buildGFSKeepSet_def gfsInit_def)
  from ch cd cw cm cy lh ld lw lm ly un fin card zero empty show ?thesis by blast
qed

theorem buildGFSKeepSet_budget_witness:
  "(0::int) \<le> 0 \<and> (0::int) \<le> 1 \<and> (0::int) \<le> 2 \<and>
   buildGFSKeepSet gfsAdditiveScenario 0 1 2 2 0 = {1, 2, 3} \<and>
   int (card (buildGFSKeepSet gfsAdditiveScenario 0 1 2 2 0)) \<le> 0 + 1 + 2 + 2 + 0 \<and>
   int (length (keptByClass DaySlot gfsAdditiveScenario 0 1 2 2 0)) \<le> 1 \<and>
   int (length (keptByClass WeekSlot gfsAdditiveScenario 0 1 2 2 0)) \<le> 2 \<and>
   int (length (keptByClass MonthSlot gfsAdditiveScenario 0 1 2 2 0)) \<le> 2"
proof -
  have h0: "(0::int) \<le> 0" and h1: "(0::int) \<le> 1" and h2: "(0::int) \<le> 2" by simp_all
  from buildGFSKeepSet_budget [OF h0 h1 h2 h2 h0, of gfsAdditiveScenario]
  have "int (card (buildGFSKeepSet gfsAdditiveScenario 0 1 2 2 0)) \<le> 0 + 1 + 2 + 2 + 0"
    and "int (length (keptByClass DaySlot gfsAdditiveScenario 0 1 2 2 0)) \<le> 1"
    and "int (length (keptByClass WeekSlot gfsAdditiveScenario 0 1 2 2 0)) \<le> 2"
    and "int (length (keptByClass MonthSlot gfsAdditiveScenario 0 1 2 2 0)) \<le> 2"
    by blast+
  with gfsAdditiveScenario_keep show ?thesis by simp
qed

text \<open>
  Claim C4. For a list sorted newest first, the keep-set is the union of what the five
  slot classes keep; within a class the kept backups have pairwise distinct bucket keys
  (at most one per key), each kept backup is the first of the list with its key and no
  backup of the list with the same key is newer; and every identifier in the keep-set
  belongs to a backup of the list that is the newest of its bucket in some class.
\<close>

theorem buildGFSKeepSet_newest_per_bucket:
  assumes "newestFirst backups"
  shows
    "buildGFSKeepSet backups hours days weeks months years =
       ID ` set (keptByClass HourSlot backups hours days weeks months years) \<union>
       ID ` set (keptByClass DaySlot backups hours days weeks months years) \<union>
       ID ` set (keptByClass WeekSlot backups hours days weeks months years) \<union>
       ID ` set (keptByClass MonthSlot backups hours days weeks months years) \<union>
       ID ` set (keptByClass YearSlot backups hours days weeks months years) \<and>
     (\<forall>c. set (keptByClass c backups hours days weeks months years) \<subseteq> set backups \<and>
          distinct (map (slotKey c) (keptByClass c backups hours days weeks months years)) \<and>
          (\<forall>b \<in> set (keptByClass c backups hours days weeks months years).
             (\<exists>pre post. backups = pre @ b # post \<and> slotKey c b \<notin> slotKey c ` set pre) \<and>
             (\<forall>b' \<in> set backups. slotKey c b' = slotKey c b \<longrightarrow> CreatedAt b' \<le> CreatedAt b))) \<and>
     (\<forall>i \<in> buildGFSKeepSet backups hours days weeks months years.
        \<exists>c. \<exists>b \<in> set (keptByClass c backups hours days weeks months years).
          ID b = i \<and> b \<in> set backups \<and>
          (\<forall>b' \<in> set backups. slotKey c b' = slotKey c b \<longrightarrow> CreatedAt b' \<le> CreatedAt b))"
proof -
  let ?K = "\<lambda>c. keptByClass c backups hours days weeks months years"
  have shape: "\<exists>budget. ?K c = slotKept (slotKey c) budget {} 0 backups" for c
    by (cases c) auto
  have per_class: "set (?K c) \<subseteq> set backups \<and>
          distinct (map (slotKey c) (?K c)) \<and>
          (\<forall>b \<in> set (?K c).
             (\<exists>pre post. backups = pre @ b # post \<and> slotKey c b \<notin> slotKey c ` set pre) \<and>
             (\<forall>b' \<in> set backups. slotKey c b' = slotKey c b \<longrightarrow> CreatedAt b' \<le> CreatedAt b))"
    for c
  proof -
    from shape [of c] obtain budget
      where k: "?K c = slotKept (slotKey c) budget {} 0 backups" by blast
    show ?thesis
      unfolding k
      using slotKept_subset [of "slotKey c" budget "{}" 0 backups]
        slotKept_distinct_keys [of "slotKey c" budget "{}" 0 backups]
        slotKept_first [of _ "slotKey c" budget "{}" 0 backups]
        slotKept_newest [OF assms, of _ "slotKey c" budget "{}" 0]
      by blast
  qed
  note un = keep_as_classes [of backups hours days weeks months years]
  have cover: "\<forall>i \<in> buildGFSKeepSet backups hours days weeks months years.
        \<exists>c. \<exists>b \<in> set (?K c). ID b = i \<and> b \<in> set backups \<and>
          (\<forall>b' \<in> set backups. slotKey c b' = slotKey c b \<longrightarrow> CreatedAt b' \<le> CreatedAt b)"
  proof
    fix i assume "i \<in> buildGFSKeepSet backups hours days weeks months years"
    then obtain c b where cb: "b \<in> set (?K c)" "ID b = i"
      unfolding un by blast
    with per_class [of c] show "\<exists>c. \<exists>b \<in> set (?K c). ID b = i \<and> b \<in> set backups \<and>
          (\<forall>b' \<in> set backups. slotKey c b' = slotKey c b \<longrightarrow> CreatedAt b' \<le> CreatedAt b)"
      by blast
  qed
  from un per_class cover show ?thesis by blast
qed

theorem buildGFSKeepSet_newest_per_bucket_witness:
  "newestFirst gfsAdditiveScenario \<and>
   keptByClass DaySlot gfsAdditiveScenario 0 1 2 2 0 = [gfsBackup 1 (time_Date 2025 6 18 12)] \<and>
   buildGFSKeepSet gfsAdditiveScenario 0 1 2 2 0 =
       ID ` set (keptByClass HourSlot gfsAdditiveScenario 0 1 2 2 0) \<union>
       ID ` set (keptByClass DaySlot gfsAdditiveScenario 0 1 2 2 0) \<union>
       ID ` set (keptByClass WeekSlot gfsAdditiveScenario 0 1 2 2 0) \<union>
       ID ` set (keptByClass MonthSlot gfsAdditiveScenario 0 1 2 2 0) \<union>
       ID ` set (keptByClass YearSlot gfsAdditiveScenario 0 1 2 2 0) \<and>
   distinct (map dayKey (keptByClass DaySlot gfsAdditiveScenario 0 1 2 2 0))"
proof -
  note t = buildGFSKeepSet_newest_per_bucket [OF gfsAdditiveScenario_newestFirst, of 0 1 2 2 0]
  from t have u: "buildGFSKeepSet gfsAdditiveScenario 0 1 2 2 0 =
       ID ` set (keptByClass HourSlot gfsAdditiveScenario 0 1 2 2 0) \<union>
       ID ` set (keptByClass DaySlot gfsAdditiveScenario 0 1 2 2 0) \<union>
       ID ` set (keptByClass WeekSlot gfsAdditiveScenario 0 1 2 2 0) \<union>
       ID ` set (keptByClass MonthSlot gfsAdditiveScenario 0 1 2 2 0) \<union>
       ID ` set (keptByClass YearSlot gfsAdditiveScenario 0 1 2 2 0)"
    by blast
  from t have "distinct (map (slotKey DaySlot) (keptByClass DaySlot gfsAdditiveScenario 0 1 2 2 0))"
    by blast
  then have d: "distinct (map dayKey (keptByClass DaySlot gfsAdditiveScenario 0 1 2 2 0))"
    by simp
  from gfsAdditiveScenario_newestFirst gfsAdditiveScenario_day u d show ?thesis by blast
qed

section \<open>Deletion pipeline: properties\<close>

text \<open>
  Claim C5. \<open>DeleteBackup\<close> returns an error exactly when some registered listener
  returns an error for the backup, or the storage lookup fails, or the catalog delete
  fails. When the listeners pass and the lookup succeeds, the result is the result of
  the catalog delete whatever the two \<open>DeleteFile\<close> calls return, and on success the
  rows with the backup's identifier are gone. When the lookup fails, its error is
  returned and catalog and stored objects are as before. When a listener fails, its
  error is returned, the listeners after it are not called (the call record ends with
  the failing one), and nothing but the two call records has changed.
\<close>

theorem DeleteBackup_error_handling:
  "(fst (DeleteBackup env backup w) \<noteq> None \<longleftrightarrow>
      (\<exists>l \<in> set (backupRemoveListeners env). l backup \<noteq> None) \<or>
      getStorageErr env (BackupStorageID backup) \<noteq> None \<or>
      deleteByIDErr env (ID backup) \<noteq> None) \<and>
   ((\<forall>l \<in> set (backupRemoveListeners env). l backup = None) \<and>
    getStorageErr env (BackupStorageID backup) = None \<longrightarrow>
      fst (DeleteBackup env backup w) = deleteByIDErr env (ID backup) \<and>
      (deleteByIDErr env (ID backup) = None \<longrightarrow>
         catalog (snd (DeleteBackup env backup w)) =
           filter (\<lambda>b. ID b \<noteq> ID backup) (catalog w))) \<and>
   (\<forall>err. (\<forall>l \<in> set (backupRemoveListeners env). l backup = None) \<and>
      getStorageErr env (BackupStorageID backup) = Some err \<longrightarrow>
        fst (DeleteBackup env backup w) = Some err \<and>
        catalog (snd (DeleteBackup env backup w)) = catalog w \<and>
        blobs (snd (DeleteBackup env backup w)) = blobs w) \<and>
   (\<forall>pre l post err.
      backupRemoveListeners env = pre @ l # post \<and> (\<forall>p \<in> set pre. p backup = None) \<and>
      l backup = Some err \<longrightarrow>
        DeleteBackup env backup w =
          (Some err,
           w \<lparr> deleteCalls := deleteCalls w @ [backup],
               hookCalls := hookCalls w @
                 map (\<lambda>k. (k, ID backup)) [0..<Suc (length pre)] \<rparr>))"
proof -
  let ?ls = "backupRemoveListeners env"
  have hook: "\<forall>pre l post err.
      ?ls = pre @ l # post \<and> (\<forall>p \<in> set pre. p backup = None) \<and> l backup = Some err \<longrightarrow>
        DeleteBackup env backup w =
          (Some err,
           w \<lparr> deleteCalls := deleteCalls w @ [backup],
               hookCalls := hookCalls w @
                 map (\<lambda>k. (k, ID backup)) [0..<Suc (length pre)] \<rparr>)"
    using DeleteBackup_hook_error [of _ backup _ _ env _ w] by blast
  have hook_fails: "fst (DeleteBackup env backup w) \<noteq> None"
    if "\<exists>l \<in> set ?ls. l backup \<noteq> None"
  proof -
    from that obtain pre l post where sp: "?ls = pre @ l # post" "l backup \<noteq> None"
      "\<forall>p \<in> set pre. \<not> p backup \<noteq> None"
      using split_list_first_prop [of ?ls "\<lambda>l. l backup \<noteq> None"] by blast
    then obtain err where "l backup = Some err" by auto
    with sp hook have "fst (DeleteBackup env backup w) = Some err" by simp
    then show ?thesis by simp
  qed
  have lookup_fails: "fst (DeleteBackup env backup w) = Some err \<and>
        catalog (snd (DeleteBackup env backup w)) = catalog w \<and>
        blobs (snd (DeleteBackup env backup w)) = blobs w"
    if "\<forall>l \<in> set ?ls. l backup = None" "getStorageErr env (BackupStorageID backup) = Some err"
    for err
    using that by (simp add: DeleteBackup_after_hooks GetStorageByID_def Let_def)
  have reaches: "fst (DeleteBackup env backup w) = deleteByIDErr env (ID backup) \<and>
      (deleteByIDErr env (ID backup) = None \<longrightarrow>
         catalog (snd (DeleteBackup env backup w)) =
           filter (\<lambda>b. ID b \<noteq> ID backup) (catalog w))"
    if p: "\<forall>l \<in> set ?ls. l backup = None" "getStorageErr env (BackupStorageID backup) = None"
  proof -
    obtain r w' where d: "DeleteBackup env backup w = (r, w')" by fastforce
    from DeleteBackup_catalog [OF d]
    have c: "r = None \<longrightarrow> catalog w' = filter (\<lambda>b. ID b \<noteq> ID backup) (catalog w)" by simp
    have "fst (DeleteBackup env backup w) = deleteByIDErr env (ID backup)"
      using p
      by (simp add: DeleteBackup_after_hooks GetStorageByID_def Let_def DeleteByID_result
          split: prod.splits)
    with d c show ?thesis by simp
  qed
  have iff: "fst (DeleteBackup env backup w) \<noteq> None \<longleftrightarrow>
      (\<exists>l \<in> set ?ls. l backup \<noteq> None) \<or>
      getStorageErr env (BackupStorageID backup) \<noteq> None \<or>
      deleteByIDErr env (ID backup) \<noteq> None"
  proof (cases "\<exists>l \<in> set ?ls. l backup \<noteq> None")
    case True
    with hook_fails show ?thesis by simp
  next
    case False
    then have pass: "\<forall>l \<in> set ?ls. l backup = None" by simp
    show ?thesis
    proof (cases "getStorageErr env (BackupStorageID backup)")
      case None
      with reaches [OF pass] False show ?thesis by simp
    next
      case (Some err)
      with lookup_fails [OF pass] False show ?thesis by simp
    qed
  qed
  from iff reaches lookup_fails hook show ?thesis by blast
qed


theorem DeleteBackup_error_handling_witness:
  "fst (DeleteBackup offlineStorageEnv weekOldBackup oneBackupWorld) = None \<and>
   catalog (snd (DeleteBackup offlineStorageEnv weekOldBackup oneBackupWorld)) = [] \<and>
   DeleteBackup vetoEnv weekOldBackup oneBackupWorld =
     (Some ''veto'',
      oneBackupWorld \<lparr> deleteCalls := [weekOldBackup], hookCalls := [(0, 1), (1, 1)] \<rparr>)"
proof -
  have pass: "(\<forall>l \<in> set (backupRemoveListeners offlineStorageEnv). l weekOldBackup = None) \<and>
      getStorageErr offlineStorageEnv (BackupStorageID weekOldBackup) = None"
    by (simp add: offlineStorageEnv_def quietEnv_def)
  have del: "deleteByIDErr offlineStorageEnv (ID weekOldBackup) = None"
    by (simp add: offlineStorageEnv_def quietEnv_def)
  from DeleteBackup_error_handling [of offlineStorageEnv weekOldBackup oneBackupWorld] pass
  have "fst (DeleteBackup offlineStorageEnv weekOldBackup oneBackupWorld) =
      deleteByIDErr offlineStorageEnv (ID weekOldBackup) \<and>
      (deleteByIDErr offlineStorageEnv (ID weekOldBackup) = None \<longrightarrow>
         catalog (snd (DeleteBackup offlineStorageEnv weekOldBackup oneBackupWorld)) =
           filter (\<lambda>b. ID b \<noteq> ID weekOldBackup) (catalog oneBackupWorld))"
    by blast
  with del have swallowed:
    "fst (DeleteBackup offlineStorageEnv weekOldBackup oneBackupWorld) = None"
    "catalog (snd (DeleteBackup offlineStorageEnv weekOldBackup oneBackupWorld)) = []"
    by (simp_all add: oneBackupWorld_def emptyWorld_def)
  have split: "backupRemoveListeners vetoEnv = [\<lambda>_. None] @ (\<lambda>_. Some ''veto'') # [\<lambda>_. None] \<and>
      (\<forall>p \<in> set [\<lambda>_. None]. p weekOldBackup = None) \<and>
      (\<lambda>_. Some ''veto'') weekOldBackup = Some ''veto''"
    by (simp add: vetoEnv_def quietEnv_def)
  from DeleteBackup_error_handling [of vetoEnv weekOldBackup oneBackupWorld]
  have "\<forall>pre l post err.
      backupRemoveListeners vetoEnv = pre @ l # post \<and>
      (\<forall>p \<in> set pre. p weekOldBackup = None) \<and> l weekOldBackup = Some err \<longrightarrow>
        DeleteBackup vetoEnv weekOldBackup oneBackupWorld =
          (Some err,
           oneBackupWorld \<lparr> deleteCalls := deleteCalls oneBackupWorld @ [weekOldBackup],
               hookCalls := hookCalls oneBackupWorld @
                 map (\<lambda>k. (k, ID weekOldBackup)) [0..<Suc (length pre)] \<rparr>)"
    by blast
  from this [rule_format, OF split]
  have veto: "DeleteBackup vetoEnv weekOldBackup oneBackupWorld =
     (Some ''veto'',
      oneBackupWorld \<lparr> deleteCalls := [weekOldBackup], hookCalls := [(0, 1), (1, 1)] \<rparr>)"
    by (simp add: oneBackupWorld_def emptyWorld_def weekOldBackup_def testBackup_def)
  from swallowed veto show ?thesis by blast
qed

section \<open>Cleaner: properties\<close>

lemma buildGFSKeepSet_no_budget:
  "hours \<le> 0 \<Longrightarrow> days \<le> 0 \<Longrightarrow> weeks \<le> 0 \<Longrightarrow> months \<le> 0 \<Longrightarrow> years \<le> 0 \<Longrightarrow>
     buildGFSKeepSet backups hours days weeks months years = {}"
  by (simp add: keep_as_classes slotKept_no_budget)

text \<open>
  Claim C10. A configuration that reaches the cleaner with a retention count of zero or
  less makes the count pass return without an error and without any effect, also through
  the dispatch on the policy type; the same holds for the GFS pass when all five GFS
  counters are zero or less. The GFS pass returns before the keep-set is built: with
  such counters the keep-set would be empty for every list, so every completed backup
  would be a candidate.
\<close>

theorem degenerate_retention_is_noop:
  "(RetentionCount backupConfig \<le> 0 \<longrightarrow>
      cleanByCount env backupConfig w = (None, w) \<and>
      (RetentionPolicyType backupConfig = RetentionPolicyTypeCount \<longrightarrow>
         cleanOneByPolicy env backupConfig w = (Return None, w))) \<and>
   (RetentionGfsHours backupConfig \<le> 0 \<and> RetentionGfsDays backupConfig \<le> 0 \<and>
    RetentionGfsWeeks backupConfig \<le> 0 \<and> RetentionGfsMonths backupConfig \<le> 0 \<and>
    RetentionGfsYears backupConfig \<le> 0 \<longrightarrow>
      cleanByGFS env backupConfig w = (None, w) \<and>
      (RetentionPolicyType backupConfig = RetentionPolicyTypeGFS \<longrightarrow>
         cleanOneByPolicy env backupConfig w = (Return None, w)) \<and>
      (\<forall>backups. buildGFSKeepSet backups
           (RetentionGfsHours backupConfig) (RetentionGfsDays backupConfig)
           (RetentionGfsWeeks backupConfig) (RetentionGfsMonths backupConfig)
           (RetentionGfsYears backupConfig) = {}))"
  by (simp add: cleanByCount_def cleanByGFS_def cleanOneByPolicy_def buildGFSKeepSet_no_budget
      config_const_defs)

theorem degenerate_retention_is_noop_witness:
  "RetentionCount zeroCountConfig \<le> 0 \<and>
   RetentionPolicyType zeroCountConfig = RetentionPolicyTypeCount \<and>
   cleanOneByPolicy quietEnv zeroCountConfig threeOldBackupsWorld =
     (Return None, threeOldBackupsWorld) \<and>
   RetentionGfsHours zeroGfsConfig \<le> 0 \<and> RetentionGfsDays zeroGfsConfig \<le> 0 \<and>
   RetentionGfsWeeks zeroGfsConfig \<le> 0 \<and> RetentionGfsMonths zeroGfsConfig \<le> 0 \<and>
   RetentionGfsYears zeroGfsConfig \<le> 0 \<and>
   RetentionPolicyType zeroGfsConfig = RetentionPolicyTypeGFS \<and>
   cleanOneByPolicy quietEnv zeroGfsConfig threeOldBackupsWorld =
     (Return None, threeOldBackupsWorld)"
proof -
  have c: "RetentionCount zeroCountConfig \<le> 0"
    "RetentionPolicyType zeroCountConfig = RetentionPolicyTypeCount"
    by (simp_all add: zeroCountConfig_def createValidBackupConfig_def)
  have g: "RetentionGfsHours zeroGfsConfig \<le> 0" "RetentionGfsDays zeroGfsConfig \<le> 0"
    "RetentionGfsWeeks zeroGfsConfig \<le> 0" "RetentionGfsMonths zeroGfsConfig \<le> 0"
    "RetentionGfsYears zeroGfsConfig \<le> 0"
    "RetentionPolicyType zeroGfsConfig = RetentionPolicyTypeGFS"
    by (simp_all add: zeroGfsConfig_def createValidBackupConfig_def)
  from degenerate_retention_is_noop [of zeroCountConfig quietEnv threeOldBackupsWorld] c
  have r1: "cleanOneByPolicy quietEnv zeroCountConfig threeOldBackupsWorld =
     (Return None, threeOldBackupsWorld)" by blast
  from degenerate_retention_is_noop [of zeroGfsConfig quietEnv threeOldBackupsWorld] g
  have r2: "cleanOneByPolicy quietEnv zeroGfsConfig threeOldBackupsWorld =
     (Return None, threeOldBackupsWorld)" by blast
  from c g r1 r2 show ?thesis by blast
qed

lemma age_iff:
  "time_Since t (CreatedAt b) < recentBackupGracePeriod \<longleftrightarrow> \<not> 60 * time_Minute \<le> t - CreatedAt b"
  by (auto simp: time_Since_def time_Sub_def recentBackupGracePeriod_def
      maxDuration_def minDuration_def time_Minute_def)

lemma guardedDeletes_refl: "guardedDeletes env P C w w"
  unfolding guardedDeletes_def by (intro exI [of _ "[]"]) (simp add: list_all_iff)

lemma guardedDeletes_trans:
  assumes "guardedDeletes env P C w w1" and "guardedDeletes env P C w1 w2"
  shows "guardedDeletes env P C w w2"
proof -
  let ?old = "\<lambda>c::Time \<times> Backup. 60 * time_Minute \<le> fst c - CreatedAt (snd c)"
  from assms(1) obtain c1 where 1: "graceChecks w1 = graceChecks w @ c1"
    "deleteCalls w1 = deleteCalls w @ map snd (filter ?old c1)"
    "\<forall>c \<in> set c1. P (snd c) \<and> snd c \<in> C \<and>
        (\<exists>k. clockReads w \<le> k \<and> k < clockReads w1 \<and> fst c = clock env k)"
    "clockReads w \<le> clockReads w1" "set (catalog w1) \<subseteq> set (catalog w)"
    "\<forall>x \<in> set (catalog w). x \<in> set (catalog w1) \<or> (\<exists>c \<in> set c1. ?old c \<and> ID (snd c) = ID x)"
    unfolding guardedDeletes_def list_all_iff case_prod_beta by blast
  from assms(2) obtain c2 where 2: "graceChecks w2 = graceChecks w1 @ c2"
    "deleteCalls w2 = deleteCalls w1 @ map snd (filter ?old c2)"
    "\<forall>c \<in> set c2. P (snd c) \<and> snd c \<in> C \<and>
        (\<exists>k. clockReads w1 \<le> k \<and> k < clockReads w2 \<and> fst c = clock env k)"
    "clockReads w1 \<le> clockReads w2" "set (catalog w2) \<subseteq> set (catalog w1)"
    "\<forall>x \<in> set (catalog w1). x \<in> set (catalog w2) \<or> (\<exists>c \<in> set c2. ?old c \<and> ID (snd c) = ID x)"
    unfolding guardedDeletes_def list_all_iff case_prod_beta by blast
  have a: "graceChecks w2 = graceChecks w @ (c1 @ c2)" using 1(1) 2(1) by simp
  have b: "deleteCalls w2 = deleteCalls w @ map snd (filter ?old (c1 @ c2))"
    using 1(2) 2(2) by simp
  have c: "\<forall>c \<in> set (c1 @ c2). P (snd c) \<and> snd c \<in> C \<and>
        (\<exists>k. clockReads w \<le> k \<and> k < clockReads w2 \<and> fst c = clock env k)"
  proof
    fix c assume "c \<in> set (c1 @ c2)"
    then consider "c \<in> set c1" | "c \<in> set c2" by auto
    then show "P (snd c) \<and> snd c \<in> C \<and>
        (\<exists>k. clockReads w \<le> k \<and> k < clockReads w2 \<and> fst c = clock env k)"
    proof cases
      case 1
      with \<open>\<forall>c \<in> set c1. _\<close> obtain k where "P (snd c)" "snd c \<in> C"
        "clockReads w \<le> k" "k < clockReads w1" "fst c = clock env k" by blast
      with 2(4) show ?thesis by (intro conjI exI [of _ k]) simp_all
    next
      case 2
      with \<open>\<forall>c \<in> set c2. _\<close> obtain k where "P (snd c)" "snd c \<in> C"
        "clockReads w1 \<le> k" "k < clockReads w2" "fst c = clock env k" by blast
      with 1(4) show ?thesis by (intro conjI exI [of _ k]) simp_all
    qed
  qed
  have d: "clockReads w \<le> clockReads w2" using 1(4) 2(4) by simp
  have e: "set (catalog w2) \<subseteq> set (catalog w)" using 1(5) 2(5) by blast
  have f: "\<forall>x \<in> set (catalog w). x \<in> set (catalog w2) \<or>
      (\<exists>c \<in> set (c1 @ c2). ?old c \<and> ID (snd c) = ID x)"
  proof
    fix x assume "x \<in> set (catalog w)"
    with 1(6) consider "x \<in> set (catalog w1)" | "\<exists>c \<in> set c1. ?old c \<and> ID (snd c) = ID x"
      by blast
    then show "x \<in> set (catalog w2) \<or> (\<exists>c \<in> set (c1 @ c2). ?old c \<and> ID (snd c) = ID x)"
    proof cases
      case 1
      with 2(6) show ?thesis by auto
    next
      case 2
      then show ?thesis by auto
    qed
  qed
  show ?thesis
    unfolding guardedDeletes_def list_all_iff case_prod_beta
    by (intro exI [of _ "c1 @ c2"] conjI a b c d e f)
qed

lemma guardedDeletes_mono:
  "guardedDeletes env P C w w' \<Longrightarrow> (\<And>b. P b \<Longrightarrow> Q b) \<Longrightarrow> guardedDeletes env Q C w w'"
  unfolding guardedDeletes_def list_all_iff case_prod_beta by blast

lemma guardedDeletes_logMsg:
  "guardedDeletes env P C w w' \<Longrightarrow> guardedDeletes env P C w (logMsg m w')"
  unfolding guardedDeletes_def by simp

lemma guardedDeletes_catalog:
  "guardedDeletes env P C w w' \<Longrightarrow> set (catalog w') \<subseteq> set (catalog w)"
  unfolding guardedDeletes_def by blast

lemma time_Now_guardedDeletes:
  "time_Now env w = (t, w1) \<Longrightarrow> guardedDeletes env P C w w1"
  unfolding guardedDeletes_def
  by (intro exI [of _ "[]"]) (auto simp: time_Now_def list_all_iff)

lemma check_recent_guardedDeletes:
  assumes "isRecentBackup env b w = (True, w1)" and "P b" and "b \<in> C"
  shows "guardedDeletes env P C w w1"
proof -
  let ?t = "clock env (clockReads w)"
  from assms(1) have w1: "w1 = w \<lparr> clockReads := Suc (clockReads w),
      graceChecks := graceChecks w @ [(?t, b)] \<rparr>"
    and young: "\<not> 60 * time_Minute \<le> ?t - CreatedAt b"
    by (simp_all add: isRecentBackup_result age_iff)
  show ?thesis
    unfolding guardedDeletes_def list_all_iff case_prod_beta
    using young assms(2,3)
    by (intro exI [of _ "[(?t, b)]"]) (auto simp: w1)
qed

lemma check_delete_guardedDeletes:
  assumes "isRecentBackup env b w = (False, w1)" and "DeleteBackup env b w1 = (r, w2)"
    and "P b" and "b \<in> C"
  shows "guardedDeletes env P C w w2"
proof -
  let ?t = "clock env (clockReads w)"
  from assms(1) have w1: "w1 = w \<lparr> clockReads := Suc (clockReads w),
      graceChecks := graceChecks w @ [(?t, b)] \<rparr>"
    and old: "60 * time_Minute \<le> ?t - CreatedAt b"
    by (simp_all add: isRecentBackup_result age_iff)
  from DeleteBackup_calls [OF assms(2)] have c: "deleteCalls w2 = deleteCalls w @ [b]"
    by (simp add: w1)
  from DeleteBackup_clock [OF assms(2)]
  have k: "clockReads w2 = Suc (clockReads w)" "graceChecks w2 = graceChecks w @ [(?t, b)]"
    by (simp_all add: w1)
  from DeleteBackup_catalog [OF assms(2)]
  have g: "catalog w2 = (if r = None then filter (\<lambda>x. ID x \<noteq> ID b) (catalog w)
                          else catalog w)"
    by (simp add: w1)
  have sub: "set (catalog w2) \<subseteq> set (catalog w)" using g by auto
  have gone: "\<forall>x \<in> set (catalog w). x \<in> set (catalog w2) \<or> ID b = ID x"
    using g by auto
  show ?thesis
    unfolding guardedDeletes_def list_all_iff case_prod_beta
    using old assms(3,4) c k sub gone
    by (intro exI [of _ "[(?t, b)]"]) auto
qed

lemma deleteCandidates_guardedDeletes:
  assumes "set bs \<subseteq> C"
    and "\<And>b. b \<in> set bs \<Longrightarrow> \<not> skip b \<Longrightarrow> P b"
  shows "guardedDeletes env P C w (deleteCandidates env skip failMsg okMsg bs w)"
  using assms
proof (induction bs arbitrary: w)
  case Nil
  show ?case by (simp add: guardedDeletes_refl)
next
  case (Cons b bs)
  have IH: "guardedDeletes env P C v (deleteCandidates env skip failMsg okMsg bs v)" for v
    using Cons.IH Cons.prems by simp
  show ?case
  proof (cases "skip b")
    case True
    then show ?thesis using IH [of w] by simp
  next
    case False
    with Cons.prems have pb: "P b" "b \<in> C" by auto
    obtain recent w1 where chk: "isRecentBackup env b w = (recent, w1)" by fastforce
    show ?thesis
    proof (cases recent)
      case True
      with chk check_recent_guardedDeletes [where P = P and C = C, OF _ pb]
      have "guardedDeletes env P C w w1" by simp
      from guardedDeletes_trans [OF this IH] False chk True show ?thesis by simp
    next
      case notRecent: False
      obtain r w2 where d: "DeleteBackup env b w1 = (r, w2)" by fastforce
      from chk notRecent check_delete_guardedDeletes [where P = P and C = C, OF _ d pb]
      have "guardedDeletes env P C w w2" by simp
      then have step: "guardedDeletes env P C w (logMsg m w2)" for m
        by (rule guardedDeletes_logMsg)
      show ?thesis
      proof (cases r)
        case None
        with d False chk notRecent guardedDeletes_trans [OF step IH] show ?thesis by simp
      next
        case (Some err)
        with d False chk notRecent guardedDeletes_trans [OF step IH] show ?thesis by simp
      qed
    qed
  qed
qed

lemma FindBackupsBeforeDate_subset:
  "FindBackupsBeforeDate env databaseID date w = Inr bs \<Longrightarrow> set bs \<subseteq> set (catalog w)"
  by (auto simp: FindBackupsBeforeDate_def split: option.splits)

lemma FindByDatabaseIdAndStatus_subset:
  "FindByDatabaseIdAndStatus env databaseID status w = Inr bs \<Longrightarrow>
     set bs \<subseteq> set (catalog w) \<and> (\<forall>b \<in> set bs. Status b = status)"
  by (auto simp: FindByDatabaseIdAndStatus_def split: option.splits)

lemma cleanByTimePeriod_guardedDeletes:
  assumes "set (catalog w) \<subseteq> C"
  shows "guardedDeletes env (\<lambda>_. True) C w (snd (cleanByTimePeriod env backupConfig w))"
proof (cases "RetentionTimePeriod backupConfig = '''' \<or>
              RetentionTimePeriod backupConfig = PeriodForever")
  case True
  then show ?thesis by (auto simp: cleanByTimePeriod_def guardedDeletes_refl)
next
  case False
  show ?thesis
  proof (cases "ToDuration (RetentionTimePeriod backupConfig)")
    case (Panic m)
    with False show ?thesis by (simp add: cleanByTimePeriod_def guardedDeletes_refl)
  next
    case (Return d)
    obtain t w1 where now: "time_Now env w = (t, w1)" by fastforce
    then have same: "catalog w1 = catalog w" by (auto simp: time_Now_def)
    from time_Now_guardedDeletes [OF now]
    have s1: "guardedDeletes env (\<lambda>_. True) C w w1" .
    show ?thesis
    proof (cases "FindBackupsBeforeDate env (DatabaseID backupConfig) (t - d) w1")
      case (Inl err)
      with False Return now s1 show ?thesis by (simp add: cleanByTimePeriod_def)
    next
      case (Inr bs)
      from FindBackupsBeforeDate_subset [OF Inr] assms same have "set bs \<subseteq> C" by simp
      then have "guardedDeletes env (\<lambda>_. True) C w1
          (deleteCandidates env (\<lambda>_. False) ''Failed to delete old backup''
             ''Deleted old backup'' bs w1)"
        by (rule deleteCandidates_guardedDeletes) simp
      from guardedDeletes_trans [OF s1 this] False Return now Inr show ?thesis
        by (simp add: cleanByTimePeriod_def)
    qed
  qed
qed

lemma cleanByCount_guardedDeletes:
  assumes "set (catalog w) \<subseteq> C"
  shows "guardedDeletes env (\<lambda>b. Status b = BackupStatusCompleted) C w
           (snd (cleanByCount env backupConfig w))"
proof (cases "FindByDatabaseIdAndStatus env (DatabaseID backupConfig) BackupStatusCompleted w")
  case (Inl err)
  then show ?thesis by (simp add: cleanByCount_def guardedDeletes_refl)
next
  case (Inr bs)
  let ?cs = "drop (nat (RetentionCount backupConfig)) bs"
  from FindByDatabaseIdAndStatus_subset [OF Inr] assms
  have sub: "set ?cs \<subseteq> C" and st: "\<forall>b \<in> set ?cs. Status b = BackupStatusCompleted"
    using set_drop_subset [of "nat (RetentionCount backupConfig)" bs] by blast+
  from sub have "guardedDeletes env (\<lambda>b. Status b = BackupStatusCompleted)
      C w (deleteCandidates env (\<lambda>_. False) ''Failed to delete backup by count policy''
             ''Deleted backup by count policy'' ?cs w)"
    by (rule deleteCandidates_guardedDeletes) (use st in simp)
  with Inr show ?thesis by (simp add: cleanByCount_def guardedDeletes_refl)
qed

lemma cleanByGFS_guardedDeletes:
  assumes "set (catalog w) \<subseteq> C"
  shows "guardedDeletes env (\<lambda>b. Status b = BackupStatusCompleted) C w
           (snd (cleanByGFS env backupConfig w))"
proof (cases "FindByDatabaseIdAndStatus env (DatabaseID backupConfig) BackupStatusCompleted w")
  case (Inl err)
  then show ?thesis by (simp add: cleanByGFS_def guardedDeletes_refl)
next
  case (Inr bs)
  from FindByDatabaseIdAndStatus_subset [OF Inr] assms
  have sub: "set bs \<subseteq> C" and st: "\<forall>b \<in> set bs. Status b = BackupStatusCompleted"
    by blast+
  have "guardedDeletes env (\<lambda>b. Status b = BackupStatusCompleted)
      C w (deleteCandidates env skip ''Failed to delete backup by GFS policy''
             ''Deleted backup by GFS policy'' bs w)" for skip
    using sub by (rule deleteCandidates_guardedDeletes) (use st in simp)
  with Inr show ?thesis by (simp add: cleanByGFS_def guardedDeletes_refl Let_def)
qed

lemma cleanOneByPolicy_guardedDeletes:
  assumes "set (catalog w) \<subseteq> C"
  shows "guardedDeletes env (\<lambda>_. True) C w (snd (cleanOneByPolicy env backupConfig w))"
proof -
  have c: "guardedDeletes env (\<lambda>_. True) C w (snd (cleanByCount env backupConfig w))"
    using cleanByCount_guardedDeletes [OF assms] by (rule guardedDeletes_mono) simp
  have g: "guardedDeletes env (\<lambda>_. True) C w (snd (cleanByGFS env backupConfig w))"
    using cleanByGFS_guardedDeletes [OF assms] by (rule guardedDeletes_mono) simp
  from c g cleanByTimePeriod_guardedDeletes [OF assms, of env backupConfig]
  show ?thesis by (auto simp: cleanOneByPolicy_def split: prod.splits)
qed

lemma cleanConfigsByPolicy_guardedDeletes:
  "set (catalog w) \<subseteq> C \<Longrightarrow>
     guardedDeletes env (\<lambda>_. True) C w (snd (cleanConfigsByPolicy env cfgs w))"
proof (induction cfgs arbitrary: w)
  case Nil
  show ?case by (simp add: guardedDeletes_refl)
next
  case (Cons cfg cfgs)
  obtain r w1 where one: "cleanOneByPolicy env cfg w = (r, w1)" by fastforce
  from cleanOneByPolicy_guardedDeletes [OF Cons.prems, of env cfg] one
  have s1: "guardedDeletes env (\<lambda>_. True) C w w1" by simp
  show ?case
  proof (cases r)
    case (Panic m)
    with one s1 show ?thesis by simp
  next
    case (Return cleanErr)
    let ?w2 = "if cleanErr \<noteq> None
               then logMsg ''Failed to clean backups by retention policy'' w1 else w1"
    from s1 have s2: "guardedDeletes env (\<lambda>_. True) C w ?w2"
      by (simp add: guardedDeletes_logMsg)
    from guardedDeletes_catalog [OF s2] Cons.prems have "set (catalog ?w2) \<subseteq> C" by blast
    from guardedDeletes_trans [OF s2 Cons.IH [OF this]] one Return show ?thesis by simp
  qed
qed

lemma cleanExceededBackupsForDatabase_guardedDeletes:
  "set (catalog w) \<subseteq> C \<Longrightarrow>
     guardedDeletes env (\<lambda>b. Status b \<noteq> BackupStatusInProgress) C w
       (snd (cleanExceededBackupsForDatabase env databaseID limitperDbMB w))"
proof (induction env databaseID limitperDbMB w rule: cleanExceededBackupsForDatabase.induct)
  case (1 env databaseID limitperDbMB w)
  let ?P = "\<lambda>b. Status b \<noteq> BackupStatusInProgress"
  note unfold = cleanExceededBackupsForDatabase.simps [of env databaseID limitperDbMB w]
  show ?case
  proof (cases "GetTotalSizeByDatabase env databaseID w")
    case (Inl err)
    then show ?thesis by (simp add: unfold guardedDeletes_refl)
  next
    case total: (Inr total)
    show ?thesis
    proof (cases "total \<le> of_int (float64_of_int64 limitperDbMB)")
      case True
      with total show ?thesis by (simp add: unfold guardedDeletes_refl)
    next
      case over: False
      show ?thesis
      proof (cases "FindOldestByDatabaseExcludingInProgress env databaseID 1 w")
        case (Inl err)
        with total over show ?thesis by (simp add: unfold guardedDeletes_refl)
      next
        case oldest: (Inr oldest)
        show ?thesis
        proof (cases oldest)
          case Nil
          with total over oldest show ?thesis
            by (simp add: unfold guardedDeletes_refl guardedDeletes_logMsg)
        next
          case (Cons backup rest)
          from FindOldest_member [of env databaseID 1 w backup rest] oldest Cons
          have mem: "backup \<in> set (catalog w)" and st: "Status backup \<noteq> BackupStatusInProgress"
            by simp_all
          from mem "1.prems" have inC: "backup \<in> C" by blast
          obtain recent w1 where chk: "isRecentBackup env backup w = (recent, w1)" by fastforce
          show ?thesis
          proof (cases recent)
            case True
            with chk check_recent_guardedDeletes [where P = ?P and C = C, OF _ st inC]
            have "guardedDeletes env ?P C w w1" by simp
            with total over oldest Cons chk True show ?thesis
              by (simp add: unfold guardedDeletes_logMsg)
          next
            case notRecent: False
            obtain e w2 where d: "DeleteBackup env backup w1 = (e, w2)" by fastforce
            from chk notRecent check_delete_guardedDeletes [where P = ?P and C = C, OF _ d st inC]
            have step: "guardedDeletes env ?P C w w2" by simp
            show ?thesis
            proof (cases e)
              case (Some err)
              with total over oldest Cons chk notRecent d step show ?thesis
                by (simp add: unfold guardedDeletes_logMsg)
            next
              case None
              let ?w3 = "logMsg ''Deleted exceeded backup'' w2"
              from step have s1: "guardedDeletes env ?P C w ?w3" by (rule guardedDeletes_logMsg)
              from guardedDeletes_catalog [OF s1] "1.prems" have sub: "set (catalog ?w3) \<subseteq> C"
                by blast
              from chk notRecent have chk': "(False, w1) = isRecentBackup env backup w" by simp
              from "1.IH" [OF total over oldest Cons chk' refl d [symmetric] None sub]
              have rec: "guardedDeletes env ?P C ?w3
                  (snd (cleanExceededBackupsForDatabase env databaseID limitperDbMB ?w3))" .
              from guardedDeletes_trans [OF s1 rec] total over oldest Cons chk notRecent d None
              show ?thesis by (simp add: unfold)
            qed
          qed
        qed
      qed
    qed
  qed
qed

lemma cleanExceededConfigs_guardedDeletes:
  "set (catalog w) \<subseteq> C \<Longrightarrow>
     guardedDeletes env (\<lambda>b. Status b \<noteq> BackupStatusInProgress) C w
       (cleanExceededConfigs env cfgs w)"
proof (induction cfgs arbitrary: w)
  case Nil
  show ?case by (simp add: guardedDeletes_refl)
next
  case (Cons cfg cfgs)
  let ?P = "\<lambda>b. Status b \<noteq> BackupStatusInProgress"
  show ?case
  proof (cases "MaxBackupsTotalSizeMB cfg \<le> 0")
    case True
    with Cons show ?thesis by simp
  next
    case False
    obtain e w1 where one: "cleanExceededBackupsForDatabase env (DatabaseID cfg)
        (MaxBackupsTotalSizeMB cfg) w = (e, w1)" by fastforce
    from cleanExceededBackupsForDatabase_guardedDeletes [OF Cons.prems, of env "DatabaseID cfg"
        "MaxBackupsTotalSizeMB cfg"] one
    have s1: "guardedDeletes env ?P C w w1" by simp
    let ?w2 = "if e \<noteq> None
               then logMsg ''Failed to clean exceeded backups for database'' w1 else w1"
    from s1 have s2: "guardedDeletes env ?P C w ?w2" by (simp add: guardedDeletes_logMsg)
    from guardedDeletes_catalog [OF s2] Cons.prems have "set (catalog ?w2) \<subseteq> C" by blast
    from guardedDeletes_trans [OF s2 Cons.IH [OF this]] one False show ?thesis
      by (cases e) simp_all
  qed
qed

lemma cleanExceededBackups_guardedDeletes:
  "set (catalog w) \<subseteq> C \<Longrightarrow>
     guardedDeletes env (\<lambda>b. Status b \<noteq> BackupStatusInProgress) C w
       (snd (cleanExceededBackups env w))"
  by (simp add: cleanExceededBackups_def guardedDeletes_refl cleanExceededConfigs_guardedDeletes
      split: sum.splits)

lemma cleanByRetentionPolicy_guardedDeletes:
  "set (catalog w) \<subseteq> C \<Longrightarrow>
     guardedDeletes env (\<lambda>_. True) C w (snd (cleanByRetentionPolicy env w))"
  by (simp add: cleanByRetentionPolicy_def guardedDeletes_refl cleanConfigsByPolicy_guardedDeletes
      split: sum.splits)

lemma cleanerTick_guardedDeletes:
  assumes "set (catalog w) \<subseteq> C"
  shows "guardedDeletes env (\<lambda>_. True) C w (snd (cleanerTick env w))"
proof -
  let ?P = "\<lambda>_::Backup. True"
  obtain r w1 where ret: "cleanByRetentionPolicy env w = (r, w1)" by fastforce
  from cleanByRetentionPolicy_guardedDeletes [OF assms, of env] ret
  have s1: "guardedDeletes env ?P C w w1" by simp
  show ?thesis
  proof (cases r)
    case (Panic m)
    with ret s1 show ?thesis by (simp add: cleanerTick_def)
  next
    case (Return err)
    let ?w2 = "if err \<noteq> None
               then logMsg ''Failed to clean backups by retention policy'' w1 else w1"
    from s1 have s2: "guardedDeletes env ?P C w ?w2" by (simp add: guardedDeletes_logMsg)
    from guardedDeletes_catalog [OF s2] assms have sub: "set (catalog ?w2) \<subseteq> C" by blast
    obtain err2 w3 where ex: "cleanExceededBackups env ?w2 = (err2, w3)" by fastforce
    from cleanExceededBackups_guardedDeletes [OF sub, of env] ex
    have "guardedDeletes env ?P C ?w2 w3" by (auto elim: guardedDeletes_mono)
    from guardedDeletes_trans [OF s2 this]
    have "guardedDeletes env ?P C w
        (if err2 \<noteq> None then logMsg ''Failed to clean exceeded backups'' w3 else w3)"
      by (simp add: guardedDeletes_logMsg)
    with ret Return ex show ?thesis by (simp add: cleanerTick_def Let_def)
  qed
qed

text \<open>
  Claim C1. Whatever a tick does (retention phase with its three policies, then size
  enforcement, ended normally or by a panic), \<open>checks\<close> are the calls of
  \<open>isRecentBackup\<close> it made, each with the reading of the clock that call took.
  The backups the tick hands to the deletion pipeline are exactly the backups of the
  checks whose reading minus the creation time is at least 60 minutes, in the order of
  the checks: a backup whose check reads less than 60 minutes is not handed over, and
  nothing is handed over unchecked. Every check is about a row of the catalog and its
  reading is one of the readings taken during the tick. If the clock never goes back,
  a backup handed over is at least 60 minutes old by every reading after the tick as
  well. When the catalog's rows have distinct identifiers, every row that is gone after
  the tick was checked with a reading at least 60 minutes after its creation.
\<close>

theorem grace_guard:
  assumes "cleanerTick env w = (r, w')"
  shows "\<exists>checks.
      graceChecks w' = graceChecks w @ checks \<and>
      deleteCalls w' =
        deleteCalls w @
          map snd (filter (\<lambda>(t, b). 60 * time_Minute \<le> t - CreatedAt b) checks) \<and>
      (\<forall>(t, b) \<in> set checks.
         b \<in> set (catalog w) \<and>
         (\<exists>k. clockReads w \<le> k \<and> k < clockReads w' \<and> t = clock env k)) \<and>
      ((\<forall>i j. i \<le> j \<longrightarrow> clock env i \<le> clock env j) \<longrightarrow>
         (\<forall>(t, b) \<in> set checks. 60 * time_Minute \<le> t - CreatedAt b \<longrightarrow>
            (\<forall>k \<ge> clockReads w'. 60 * time_Minute \<le> clock env k - CreatedAt b))) \<and>
      (distinct (map ID (catalog w)) \<longrightarrow>
         (\<forall>x \<in> set (catalog w). x \<notin> set (catalog w') \<longrightarrow>
            (\<exists>t. (t, x) \<in> set checks \<and> 60 * time_Minute \<le> t - CreatedAt x)))"
proof -
  let ?old = "\<lambda>c::Time \<times> Backup. 60 * time_Minute \<le> fst c - CreatedAt (snd c)"
  from cleanerTick_guardedDeletes [of w "set (catalog w)" env] assms
  have "guardedDeletes env (\<lambda>_. True) (set (catalog w)) w w'" by simp
  then obtain checks where n: "graceChecks w' = graceChecks w @ checks"
    "deleteCalls w' = deleteCalls w @ map snd (filter ?old checks)"
    "\<forall>c \<in> set checks. snd c \<in> set (catalog w) \<and>
        (\<exists>k. clockReads w \<le> k \<and> k < clockReads w' \<and> fst c = clock env k)"
    "\<forall>x \<in> set (catalog w). x \<in> set (catalog w') \<or>
        (\<exists>c \<in> set checks. ?old c \<and> ID (snd c) = ID x)"
    unfolding guardedDeletes_def list_all_iff case_prod_beta by blast
  have later: "60 * time_Minute \<le> clock env k - CreatedAt (snd c)"
    if mono: "\<forall>i j. i \<le> j \<longrightarrow> clock env i \<le> clock env j"
      and c: "c \<in> set checks" "?old c" and k: "clockReads w' \<le> k" for c k
  proof -
    from n(3) c(1) obtain k0 where k0: "k0 < clockReads w'" "fst c = clock env k0" by blast
    with k mono have "fst c \<le> clock env k" by simp
    with c(2) show ?thesis by simp
  qed
  have removed: "\<exists>t. (t, x) \<in> set checks \<and> 60 * time_Minute \<le> t - CreatedAt x"
    if d: "distinct (map ID (catalog w))" and x: "x \<in> set (catalog w)" "x \<notin> set (catalog w')"
    for x
  proof -
    from n(4) x obtain c where c: "c \<in> set checks" "?old c" "ID (snd c) = ID x" by blast
    with n(3) have "snd c \<in> set (catalog w)" by blast
    with d x(1) c(3) have "snd c = x" by (meson distinct_map inj_onD)
    with c(1,2) have "(fst c, x) \<in> set checks" "60 * time_Minute \<le> fst c - CreatedAt x"
      by auto
    then show ?thesis by blast
  qed
  show ?thesis
    unfolding case_prod_beta
  proof (intro exI [of _ checks] conjI)
    show "graceChecks w' = graceChecks w @ checks" by (rule n(1))
    show "deleteCalls w' = deleteCalls w @ map snd (filter ?old checks)" by (rule n(2))
    show "\<forall>c \<in> set checks. snd c \<in> set (catalog w) \<and>
        (\<exists>k. clockReads w \<le> k \<and> k < clockReads w' \<and> fst c = clock env k)" by (rule n(3))
    show "(\<forall>i j. i \<le> j \<longrightarrow> clock env i \<le> clock env j) \<longrightarrow>
         (\<forall>c \<in> set checks. 60 * time_Minute \<le> fst c - CreatedAt (snd c) \<longrightarrow>
            (\<forall>k \<ge> clockReads w'. 60 * time_Minute \<le> clock env k - CreatedAt (snd c)))"
      using later by blast
    show "distinct (map ID (catalog w)) \<longrightarrow>
         (\<forall>x \<in> set (catalog w). x \<notin> set (catalog w') \<longrightarrow>
            (\<exists>t. (t, x) \<in> set checks \<and> 60 * time_Minute \<le> t - CreatedAt x))"
      using removed by blast
  qed
qed

lemma slow_tick:
  "deleteCalls (snd (cleanerTick slowTickEnv agingBackupsWorld)) = [agingBackup3, agingBackup2] \<and>
   catalog (snd (cleanerTick slowTickEnv agingBackupsWorld)) = [agingBackup1] \<and>
   graceChecks (snd (cleanerTick slowTickEnv agingBackupsWorld)) =
     [(tenMinuteClock 1, agingBackup3), (tenMinuteClock 2, agingBackup2),
      (tenMinuteClock 3, agingBackup1)]"
  by code_simp

lemma slow_tick_ages:
  "tenMinuteClock 0 - CreatedAt agingBackup2 = 55 * time_Minute \<and>
   tenMinuteClock 1 - CreatedAt agingBackup3 = 190 * time_Minute \<and>
   tenMinuteClock 2 - CreatedAt agingBackup2 = 75 * time_Minute \<and>
   tenMinuteClock 3 - CreatedAt agingBackup1 = 40 * time_Minute"
  by code_simp

theorem grace_guard_witness:
  "deleteCalls (snd (cleanerTick slowTickEnv agingBackupsWorld)) =
     map snd (filter (\<lambda>(t, b). 60 * time_Minute \<le> t - CreatedAt b)
       (graceChecks (snd (cleanerTick slowTickEnv agingBackupsWorld)))) \<and>
   graceChecks (snd (cleanerTick slowTickEnv agingBackupsWorld)) =
     [(tenMinuteClock 1, agingBackup3), (tenMinuteClock 2, agingBackup2),
      (tenMinuteClock 3, agingBackup1)] \<and>
   deleteCalls (snd (cleanerTick slowTickEnv agingBackupsWorld)) = [agingBackup3, agingBackup2] \<and>
   catalog (snd (cleanerTick slowTickEnv agingBackupsWorld)) = [agingBackup1] \<and>
   tenMinuteClock 0 - CreatedAt agingBackup2 = 55 * time_Minute \<and>
   tenMinuteClock 1 - CreatedAt agingBackup3 = 190 * time_Minute \<and>
   tenMinuteClock 2 - CreatedAt agingBackup2 = 75 * time_Minute \<and>
   tenMinuteClock 3 - CreatedAt agingBackup1 = 40 * time_Minute"
proof -
  let ?w' = "snd (cleanerTick slowTickEnv agingBackupsWorld)"
  have "cleanerTick slowTickEnv agingBackupsWorld =
      (fst (cleanerTick slowTickEnv agingBackupsWorld), ?w')" by simp
  from grace_guard [OF this] obtain checks
    where n: "graceChecks ?w' = graceChecks agingBackupsWorld @ checks"
      "deleteCalls ?w' = deleteCalls agingBackupsWorld @
         map snd (filter (\<lambda>(t, b). 60 * time_Minute \<le> t - CreatedAt b) checks)"
    by blast
  have "graceChecks agingBackupsWorld = []" "deleteCalls agingBackupsWorld = []"
    by (simp_all add: agingBackupsWorld_def emptyWorld_def)
  with n have "deleteCalls ?w' =
      map snd (filter (\<lambda>(t, b). 60 * time_Minute \<le> t - CreatedAt b) (graceChecks ?w'))"
    by simp
  with slow_tick slow_tick_ages show ?thesis by (intro conjI) blast+
qed

lemma stuck_tick:
  "cleanerTick dayRetentionEnv stuckBackupWorld =
     (Return (), stuckBackupWorld \<lparr> catalog := [], deleteCalls := [stuckBackup],
                   logs := [''Deleted old backup''], clockReads := 2,
                   graceChecks := [(time_Date 2025 6 18 13, stuckBackup)] \<rparr>)"
  by code_simp

text \<open>
  Claim C2 fails on the time-period pass. With a one-day retention period and a single
  backup that is in progress and was created 48 hours before the tick, the tick hands
  that backup to the deletion pipeline and its row is gone afterwards. The count, GFS
  and size passes only ever check and delete backups that are not in progress (lemmas
  \<open>cleanByCount_guardedDeletes\<close>, \<open>cleanByGFS_guardedDeletes\<close> and
  \<open>cleanExceededBackupsForDatabase_guardedDeletes\<close>).
\<close>

theorem time_period_deletes_in_progress:
  "Status stuckBackup = BackupStatusInProgress \<and>
   catalog stuckBackupWorld = [stuckBackup] \<and>
   deleteCalls (snd (cleanerTick dayRetentionEnv stuckBackupWorld)) = [stuckBackup] \<and>
   catalog (snd (cleanerTick dayRetentionEnv stuckBackupWorld)) = []"
proof -
  have "Status stuckBackup = BackupStatusInProgress"
    by (simp add: stuckBackup_def testBackup_def)
  moreover have "catalog stuckBackupWorld = [stuckBackup]"
    by (simp add: stuckBackupWorld_def)
  moreover have "deleteCalls (snd (cleanerTick dayRetentionEnv stuckBackupWorld)) = [stuckBackup]"
    by (simp add: stuck_tick)
  moreover have "catalog (snd (cleanerTick dayRetentionEnv stuckBackupWorld)) = []"
    by (simp add: stuck_tick)
  ultimately show ?thesis by blast
qed

lemma bitLen_le: "0 \<le> n \<Longrightarrow> n < 2 ^ k \<Longrightarrow> bitLen n \<le> k"
proof (induction k arbitrary: n)
  case 0
  then have "n = 0" by simp
  then show ?case by (simp add: bitLen.simps [of 0])
next
  case (Suc k)
  show ?case
  proof (cases "n \<le> 0")
    case True
    then show ?thesis by (simp add: bitLen.simps [of n])
  next
    case False
    from Suc.prems have "0 \<le> n div 2" "n div 2 < 2 ^ k" by simp_all
    from Suc.IH [OF this] False show ?thesis by (simp add: bitLen.simps [of n])
  qed
qed

lemma bitLen_two_53: "bitLen 9007199254740992 = 54"
  by code_simp

lemma float64_of_int64_exact:
  assumes "\<bar>x\<bar> \<le> 2 ^ 53"
  shows "float64_of_int64 x = x"
proof (cases "\<bar>x\<bar> < 2 ^ 53")
  case True
  from bitLen_le [OF _ True] have "bitLen \<bar>x\<bar> \<le> 53" by simp
  then show ?thesis by (simp add: float64_of_int64_def Let_def)
next
  case False
  with assms have m: "\<bar>x\<bar> = 9007199254740992" by simp
  then have "x = 9007199254740992 \<or> x = - 9007199254740992" by linarith
  then show ?thesis
    by (auto simp: float64_of_int64_def Let_def bitLen_two_53)
qed

lemma float64_of_int64_rounds:
  "float64_of_int64 9007199254740993 = 9007199254740992 \<and>
   float64_of_int64 9007199254740995 = 9007199254740996 \<and>
   float64_of_int64 9223372036854775807 = 9223372036854775808"
  by code_simp

lemma queries_catalog:
  "catalog w' = catalog w \<Longrightarrow>
     GetTotalSizeByDatabase env databaseID w' = GetTotalSizeByDatabase env databaseID w \<and>
     FindOldestByDatabaseExcludingInProgress env databaseID limit w' =
       FindOldestByDatabaseExcludingInProgress env databaseID limit w"
  by (simp add: GetTotalSizeByDatabase_def FindOldestByDatabaseExcludingInProgress_def
      cong: option.case_cong)

lemma FindOldest_oldest:
  assumes "FindOldestByDatabaseExcludingInProgress env databaseID 1 w = Inr (b # rest)"
  shows "rest = [] \<and>
         (\<forall>x \<in> set (catalog w).
            BackupDatabaseID x = databaseID \<and> Status x \<noteq> BackupStatusInProgress \<longrightarrow>
              CreatedAt b \<le> CreatedAt x)"
proof -
  let ?xs = "sort_key CreatedAt
      (filter (\<lambda>b. BackupDatabaseID b = databaseID \<and> Status b \<noteq> BackupStatusInProgress)
         (catalog w))"
  from assms have t: "take 1 ?xs = b # rest"
    by (simp add: FindOldestByDatabaseExcludingInProgress_def split: option.splits)
  then obtain ys where xs: "?xs = b # ys" and r: "rest = []"
    by (cases ?xs) auto
  have "sorted (map CreatedAt ?xs)" by (rule sorted_sort_key)
  with xs have "\<forall>x \<in> set ?xs. CreatedAt b \<le> CreatedAt x" by auto
  with r show ?thesis by simp
qed

lemma isRecentBackup_age:
  "isRecentBackup env backup w =
     (clock env (clockReads w) - CreatedAt backup < 60 * time_Minute,
      w \<lparr> clockReads := Suc (clockReads w),
          graceChecks := graceChecks w @ [(clock env (clockReads w), backup)] \<rparr>)"
  using age_iff [of "clock env (clockReads w)" backup]
  by (simp add: isRecentBackup_result not_le)

lemma cleanExceeded_post:
  "cleanExceededBackupsForDatabase env databaseID limitperDbMB w = (None, w') \<Longrightarrow>
     (\<exists>total. GetTotalSizeByDatabase env databaseID w' = Inr total \<and>
              total \<le> of_int (float64_of_int64 limitperDbMB)) \<or>
     FindOldestByDatabaseExcludingInProgress env databaseID 1 w' = Inr [] \<or>
     (\<exists>t b. FindOldestByDatabaseExcludingInProgress env databaseID 1 w' = Inr [b] \<and>
            graceChecks w' \<noteq> [] \<and> last (graceChecks w') = (t, b) \<and>
            t - CreatedAt b < 60 * time_Minute)"
proof (induction env databaseID limitperDbMB w rule: cleanExceededBackupsForDatabase.induct)
  case (1 env databaseID limitperDbMB w)
  note unfold = cleanExceededBackupsForDatabase.simps [of env databaseID limitperDbMB w]
  show ?case
  proof (cases "GetTotalSizeByDatabase env databaseID w")
    case (Inl err)
    with "1.prems" show ?thesis by (simp add: unfold)
  next
    case total: (Inr total)
    show ?thesis
    proof (cases "total \<le> of_int (float64_of_int64 limitperDbMB)")
      case True
      with total "1.prems" show ?thesis by (auto simp: unfold)
    next
      case over: False
      show ?thesis
      proof (cases "FindOldestByDatabaseExcludingInProgress env databaseID 1 w")
        case (Inl err)
        with total over "1.prems" show ?thesis by (simp add: unfold)
      next
        case oldest: (Inr oldest)
        show ?thesis
        proof (cases oldest)
          case Nil
          with total over oldest "1.prems"
          have w': "w' = logMsg ''No backups to delete but still over limit'' w"
            by (simp add: unfold)
          from queries_catalog [of w' w env databaseID 1] oldest Nil w'
          show ?thesis by simp
        next
          case (Cons backup rest)
          from FindOldest_oldest [of env databaseID w backup rest] oldest Cons
          have rest: "rest = []" by simp
          let ?t = "clock env (clockReads w)"
          let ?w1 = "w \<lparr> clockReads := Suc (clockReads w),
              graceChecks := graceChecks w @ [(?t, backup)] \<rparr>"
          show ?thesis
          proof (cases "?t - CreatedAt backup < 60 * time_Minute")
            case True
            then have chk: "isRecentBackup env backup w = (True, ?w1)"
              by (simp add: isRecentBackup_age)
            with total over oldest Cons "1.prems"
            have w': "w' = logMsg ''Oldest backup is too recent to delete, stopping size cleanup'' ?w1"
              by (simp add: unfold)
            from queries_catalog [of w' w env databaseID 1] oldest Cons rest w'
            have "FindOldestByDatabaseExcludingInProgress env databaseID 1 w' = Inr [backup]"
              by simp
            moreover from w' have "graceChecks w' \<noteq> []" "last (graceChecks w') = (?t, backup)"
              by simp_all
            ultimately show ?thesis using True by blast
          next
            case old: False
            then have chk: "isRecentBackup env backup w = (False, ?w1)"
              by (simp add: isRecentBackup_age)
            obtain e w2 where d: "DeleteBackup env backup ?w1 = (e, w2)" by fastforce
            show ?thesis
            proof (cases e)
              case (Some err)
              with total over oldest Cons chk d "1.prems" show ?thesis by (simp add: unfold)
            next
              case None
              with total over oldest Cons chk d "1.prems"
              have "cleanExceededBackupsForDatabase env databaseID limitperDbMB
                  (logMsg ''Deleted exceeded backup'' w2) = (None, w')"
                by (simp add: unfold)
              from "1.IH" [OF total over oldest Cons chk [symmetric] refl d [symmetric] None this]
              show ?thesis .
            qed
          qed
        qed
      qed
    qed
  qed
qed

text \<open>
  Claim C6, as amended. One run of the size enforcement for a database and a cap, by the
  state it finds. The total is the sum, as the database adds it, of the sizes of the
  database's backups that are not in progress, failed ones included; the cap is compared
  after its conversion to \<open>float64\<close>, which changes no cap of magnitude up to
  \<open>2 ^ 53\<close>. Total at most the cap: nothing happens. Over the cap and no candidate:
  a warning, nothing else. Over the cap with a candidate: \<open>isRecentBackup\<close> takes a
  reading of the clock for this turn. If the candidate is less than 60 minutes old by
  that reading: a warning, nothing else, whatever other candidates there are. Otherwise
  it is handed to the pipeline; on an error the run ends with that error, otherwise the
  run starts again from the new state. The candidate is the single oldest backup of the
  database that is not in progress. A run that ends without an error ends in a state
  where the total is at most the cap, or there is no candidate, or the oldest candidate
  is the backup of the last check and that check read less than 60 minutes.
\<close>

theorem size_enforcement:
  "(\<forall>total. GetTotalSizeByDatabase env databaseID w = Inr total \<longrightarrow>
       total = sumSizes env (map BackupSizeMb
                 (filter (\<lambda>b. BackupDatabaseID b = databaseID \<and>
                               Status b \<noteq> BackupStatusInProgress) (catalog w)))) \<and>
   (\<bar>limitperDbMB\<bar> \<le> 2 ^ 53 \<longrightarrow> float64_of_int64 limitperDbMB = limitperDbMB) \<and>
   (\<forall>total. GetTotalSizeByDatabase env databaseID w = Inr total \<and>
       total \<le> of_int (float64_of_int64 limitperDbMB) \<longrightarrow>
         cleanExceededBackupsForDatabase env databaseID limitperDbMB w = (None, w)) \<and>
   (\<forall>total. GetTotalSizeByDatabase env databaseID w = Inr total \<and>
       \<not> total \<le> of_int (float64_of_int64 limitperDbMB) \<and>
       FindOldestByDatabaseExcludingInProgress env databaseID 1 w = Inr [] \<longrightarrow>
         cleanExceededBackupsForDatabase env databaseID limitperDbMB w =
           (None, logMsg ''No backups to delete but still over limit'' w)) \<and>
   (\<forall>backup. isRecentBackup env backup w =
       (clock env (clockReads w) - CreatedAt backup < 60 * time_Minute,
        w \<lparr> clockReads := Suc (clockReads w),
            graceChecks := graceChecks w @ [(clock env (clockReads w), backup)] \<rparr>)) \<and>
   (\<forall>total backup rest w1. GetTotalSizeByDatabase env databaseID w = Inr total \<and>
       \<not> total \<le> of_int (float64_of_int64 limitperDbMB) \<and>
       FindOldestByDatabaseExcludingInProgress env databaseID 1 w = Inr (backup # rest) \<and>
       isRecentBackup env backup w = (True, w1) \<longrightarrow>
         cleanExceededBackupsForDatabase env databaseID limitperDbMB w =
           (None, logMsg ''Oldest backup is too recent to delete, stopping size cleanup'' w1)) \<and>
   (\<forall>total backup rest err w1 w2. GetTotalSizeByDatabase env databaseID w = Inr total \<and>
       \<not> total \<le> of_int (float64_of_int64 limitperDbMB) \<and>
       FindOldestByDatabaseExcludingInProgress env databaseID 1 w = Inr (backup # rest) \<and>
       isRecentBackup env backup w = (False, w1) \<and>
       DeleteBackup env backup w1 = (Some err, w2) \<longrightarrow>
         cleanExceededBackupsForDatabase env databaseID limitperDbMB w =
           (Some err, logMsg ''Failed to delete exceeded backup'' w2)) \<and>
   (\<forall>total backup rest w1 w2. GetTotalSizeByDatabase env databaseID w = Inr total \<and>
       \<not> total \<le> of_int (float64_of_int64 limitperDbMB) \<and>
       FindOldestByDatabaseExcludingInProgress env databaseID 1 w = Inr (backup # rest) \<and>
       isRecentBackup env backup w = (False, w1) \<and>
       DeleteBackup env backup w1 = (None, w2) \<longrightarrow>
         cleanExceededBackupsForDatabase env databaseID limitperDbMB w =
           cleanExceededBackupsForDatabase env databaseID limitperDbMB
             (logMsg ''Deleted exceeded backup'' w2)) \<and>
   (\<forall>backup rest.
       FindOldestByDatabaseExcludingInProgress env databaseID 1 w = Inr (backup # rest) \<longrightarrow>
         rest = [] \<and> backup \<in> set (catalog w) \<and> BackupDatabaseID backup = databaseID \<and>
         Status backup \<noteq> BackupStatusInProgress \<and>
         (\<forall>x \<in> set (catalog w).
            BackupDatabaseID x = databaseID \<and> Status x \<noteq> BackupStatusInProgress \<longrightarrow>
              CreatedAt backup \<le> CreatedAt x)) \<and>
   (\<forall>w'. cleanExceededBackupsForDatabase env databaseID limitperDbMB w = (None, w') \<longrightarrow>
       (\<exists>total. GetTotalSizeByDatabase env databaseID w' = Inr total \<and>
                total \<le> of_int (float64_of_int64 limitperDbMB)) \<or>
       FindOldestByDatabaseExcludingInProgress env databaseID 1 w' = Inr [] \<or>
       (\<exists>t b. FindOldestByDatabaseExcludingInProgress env databaseID 1 w' = Inr [b] \<and>
              graceChecks w' \<noteq> [] \<and> last (graceChecks w') = (t, b) \<and>
              t - CreatedAt b < 60 * time_Minute))"
proof -
  note unfold = cleanExceededBackupsForDatabase.simps [of env databaseID limitperDbMB w]
  have total: "\<forall>total. GetTotalSizeByDatabase env databaseID w = Inr total \<longrightarrow>
       total = sumSizes env (map BackupSizeMb
                 (filter (\<lambda>b. BackupDatabaseID b = databaseID \<and>
                               Status b \<noteq> BackupStatusInProgress) (catalog w)))"
    by (auto simp: GetTotalSizeByDatabase_def split: option.splits)
  have exact: "\<bar>limitperDbMB\<bar> \<le> 2 ^ 53 \<longrightarrow> float64_of_int64 limitperDbMB = limitperDbMB"
    using float64_of_int64_exact by blast
  have under: "\<forall>total. GetTotalSizeByDatabase env databaseID w = Inr total \<and>
       total \<le> of_int (float64_of_int64 limitperDbMB) \<longrightarrow>
         cleanExceededBackupsForDatabase env databaseID limitperDbMB w = (None, w)"
    by (simp add: unfold)
  have none: "\<forall>total. GetTotalSizeByDatabase env databaseID w = Inr total \<and>
       \<not> total \<le> of_int (float64_of_int64 limitperDbMB) \<and>
       FindOldestByDatabaseExcludingInProgress env databaseID 1 w = Inr [] \<longrightarrow>
         cleanExceededBackupsForDatabase env databaseID limitperDbMB w =
           (None, logMsg ''No backups to delete but still over limit'' w)"
    by (simp add: unfold)
  have check: "\<forall>backup. isRecentBackup env backup w =
       (clock env (clockReads w) - CreatedAt backup < 60 * time_Minute,
        w \<lparr> clockReads := Suc (clockReads w),
            graceChecks := graceChecks w @ [(clock env (clockReads w), backup)] \<rparr>)"
    using isRecentBackup_age by blast
  have recent: "\<forall>total backup rest w1. GetTotalSizeByDatabase env databaseID w = Inr total \<and>
       \<not> total \<le> of_int (float64_of_int64 limitperDbMB) \<and>
       FindOldestByDatabaseExcludingInProgress env databaseID 1 w = Inr (backup # rest) \<and>
       isRecentBackup env backup w = (True, w1) \<longrightarrow>
         cleanExceededBackupsForDatabase env databaseID limitperDbMB w =
           (None, logMsg ''Oldest backup is too recent to delete, stopping size cleanup'' w1)"
    by (simp add: unfold)
  have failed: "\<forall>total backup rest err w1 w2. GetTotalSizeByDatabase env databaseID w = Inr total \<and>
       \<not> total \<le> of_int (float64_of_int64 limitperDbMB) \<and>
       FindOldestByDatabaseExcludingInProgress env databaseID 1 w = Inr (backup # rest) \<and>
       isRecentBackup env backup w = (False, w1) \<and>
       DeleteBackup env backup w1 = (Some err, w2) \<longrightarrow>
         cleanExceededBackupsForDatabase env databaseID limitperDbMB w =
           (Some err, logMsg ''Failed to delete exceeded backup'' w2)"
    by (simp add: unfold)
  have again: "\<forall>total backup rest w1 w2. GetTotalSizeByDatabase env databaseID w = Inr total \<and>
       \<not> total \<le> of_int (float64_of_int64 limitperDbMB) \<and>
       FindOldestByDatabaseExcludingInProgress env databaseID 1 w = Inr (backup # rest) \<and>
       isRecentBackup env backup w = (False, w1) \<and>
       DeleteBackup env backup w1 = (None, w2) \<longrightarrow>
         cleanExceededBackupsForDatabase env databaseID limitperDbMB w =
           cleanExceededBackupsForDatabase env databaseID limitperDbMB
             (logMsg ''Deleted exceeded backup'' w2)"
    by (simp add: unfold)
  have oldest: "\<forall>backup rest.
       FindOldestByDatabaseExcludingInProgress env databaseID 1 w = Inr (backup # rest) \<longrightarrow>
         rest = [] \<and> backup \<in> set (catalog w) \<and> BackupDatabaseID backup = databaseID \<and>
         Status backup \<noteq> BackupStatusInProgress \<and>
         (\<forall>x \<in> set (catalog w).
            BackupDatabaseID x = databaseID \<and> Status x \<noteq> BackupStatusInProgress \<longrightarrow>
              CreatedAt backup \<le> CreatedAt x)"
    using FindOldest_oldest [of env databaseID w] FindOldest_member [of env databaseID 1 w]
    by blast
  have post: "\<forall>w'. cleanExceededBackupsForDatabase env databaseID limitperDbMB w = (None, w') \<longrightarrow>
       (\<exists>total. GetTotalSizeByDatabase env databaseID w' = Inr total \<and>
                total \<le> of_int (float64_of_int64 limitperDbMB)) \<or>
       FindOldestByDatabaseExcludingInProgress env databaseID 1 w' = Inr [] \<or>
       (\<exists>t b. FindOldestByDatabaseExcludingInProgress env databaseID 1 w' = Inr [b] \<and>
              graceChecks w' \<noteq> [] \<and> last (graceChecks w') = (t, b) \<and>
              t - CreatedAt b < 60 * time_Minute)"
    using cleanExceeded_post [of env databaseID limitperDbMB w] by blast
  show ?thesis
    by (intro conjI total exact under none check recent failed again oldest post)
qed

lemma twoRecent_queries:
  "GetTotalSizeByDatabase quietEnv 1 twoRecentBackupsWorld = Inr 16 \<and>
   FindOldestByDatabaseExcludingInProgress quietEnv 1 1 twoRecentBackupsWorld =
     Inr [testBackup 2 BackupStatusCompleted 8 (time_Date 2025 6 18 13 - 30 * time_Minute)] \<and>
   isRecentBackup quietEnv
     (testBackup 2 BackupStatusCompleted 8 (time_Date 2025 6 18 13 - 30 * time_Minute))
     twoRecentBackupsWorld =
     (True, twoRecentBackupsWorld \<lparr> clockReads := 1,
        graceChecks := [(time_Date 2025 6 18 13,
          testBackup 2 BackupStatusCompleted 8 (time_Date 2025 6 18 13 - 30 * time_Minute))] \<rparr>)"
  by code_simp

lemma slow_size_run:
  "fst (cleanExceededBackupsForDatabase slowTickEnv 1 5 agingBackupsWorld) = None \<and>
   deleteCalls (snd (cleanExceededBackupsForDatabase slowTickEnv 1 5 agingBackupsWorld)) =
     [agingBackup3, agingBackup2] \<and>
   catalog (snd (cleanExceededBackupsForDatabase slowTickEnv 1 5 agingBackupsWorld)) =
     [agingBackup1] \<and>
   graceChecks (snd (cleanExceededBackupsForDatabase slowTickEnv 1 5 agingBackupsWorld)) =
     [(tenMinuteClock 0, agingBackup3), (tenMinuteClock 1, agingBackup2),
      (tenMinuteClock 2, agingBackup1)]"
  by code_simp

lemma slow_size_ages:
  "tenMinuteClock 0 - CreatedAt agingBackup2 = 55 * time_Minute \<and>
   tenMinuteClock 1 - CreatedAt agingBackup2 = 65 * time_Minute \<and>
   tenMinuteClock 2 - CreatedAt agingBackup1 = 30 * time_Minute"
  by code_simp

theorem size_enforcement_witness:
  "cleanExceededBackupsForDatabase quietEnv 1 10 twoRecentBackupsWorld =
     (None, logMsg ''Oldest backup is too recent to delete, stopping size cleanup''
              (twoRecentBackupsWorld \<lparr> clockReads := 1,
                 graceChecks := [(time_Date 2025 6 18 13,
                   testBackup 2 BackupStatusCompleted 8
                     (time_Date 2025 6 18 13 - 30 * time_Minute))] \<rparr>)) \<and>
   fst (cleanExceededBackupsForDatabase slowTickEnv 1 5 agingBackupsWorld) = None \<and>
   deleteCalls (snd (cleanExceededBackupsForDatabase slowTickEnv 1 5 agingBackupsWorld)) =
     [agingBackup3, agingBackup2] \<and>
   catalog (snd (cleanExceededBackupsForDatabase slowTickEnv 1 5 agingBackupsWorld)) =
     [agingBackup1] \<and>
   graceChecks (snd (cleanExceededBackupsForDatabase slowTickEnv 1 5 agingBackupsWorld)) =
     [(tenMinuteClock 0, agingBackup3), (tenMinuteClock 1, agingBackup2),
      (tenMinuteClock 2, agingBackup1)] \<and>
   tenMinuteClock 0 - CreatedAt agingBackup2 = 55 * time_Minute \<and>
   tenMinuteClock 1 - CreatedAt agingBackup2 = 65 * time_Minute \<and>
   tenMinuteClock 2 - CreatedAt agingBackup1 = 30 * time_Minute"
proof -
  let ?b = "testBackup 2 BackupStatusCompleted 8 (time_Date 2025 6 18 13 - 30 * time_Minute)"
  let ?w1 = "twoRecentBackupsWorld \<lparr> clockReads := 1,
      graceChecks := [(time_Date 2025 6 18 13, ?b)] \<rparr>"
  have cap: "float64_of_int64 10 = 10"
    using size_enforcement [of quietEnv 1 twoRecentBackupsWorld 10, THEN conjunct2,
        THEN conjunct1] by simp
  have pre: "GetTotalSizeByDatabase quietEnv 1 twoRecentBackupsWorld = Inr 16 \<and>
       \<not> (16::rat) \<le> of_int (float64_of_int64 10) \<and>
       FindOldestByDatabaseExcludingInProgress quietEnv 1 1 twoRecentBackupsWorld = Inr (?b # []) \<and>
       isRecentBackup quietEnv ?b twoRecentBackupsWorld = (True, ?w1)"
  proof (intro conjI)
    show "\<not> (16::rat) \<le> of_int (float64_of_int64 10)" by (simp add: cap)
  qed (use twoRecent_queries in blast)+
  note size_enforcement [of quietEnv 1 twoRecentBackupsWorld 10,
      THEN conjunct2, THEN conjunct2, THEN conjunct2, THEN conjunct2, THEN conjunct2,
      THEN conjunct1]
  from this [rule_format, OF pre]
  have r: "cleanExceededBackupsForDatabase quietEnv 1 10 twoRecentBackupsWorld =
           (None, logMsg ''Oldest backup is too recent to delete, stopping size cleanup'' ?w1)" .
  from slow_size_run slow_size_ages
  have s: "fst (cleanExceededBackupsForDatabase slowTickEnv 1 5 agingBackupsWorld) = None \<and>
   deleteCalls (snd (cleanExceededBackupsForDatabase slowTickEnv 1 5 agingBackupsWorld)) =
     [agingBackup3, agingBackup2] \<and>
   catalog (snd (cleanExceededBackupsForDatabase slowTickEnv 1 5 agingBackupsWorld)) =
     [agingBackup1] \<and>
   graceChecks (snd (cleanExceededBackupsForDatabase slowTickEnv 1 5 agingBackupsWorld)) =
     [(tenMinuteClock 0, agingBackup3), (tenMinuteClock 1, agingBackup2),
      (tenMinuteClock 2, agingBackup1)] \<and>
   tenMinuteClock 0 - CreatedAt agingBackup2 = 55 * time_Minute \<and>
   tenMinuteClock 1 - CreatedAt agingBackup2 = 65 * time_Minute \<and>
   tenMinuteClock 2 - CreatedAt agingBackup1 = 30 * time_Minute"
    by (intro conjI) blast+
  show ?thesis by (rule conjI [OF r s])
qed

text \<open>
  Claim C6 as stated compares the total size of the completed backups with the cap.
  With a failed backup of 5.25 MiB and two completed ones of 20.25 and 10.5 MiB, all
  more than an hour old, and a cap of 35 MiB, the completed backups add up to 30.75
  MiB, which is under the cap; the total the run compares is 36 MiB, and the run hands
  the oldest completed backup to the pipeline and removes its row.
\<close>

theorem size_cap_counts_failed_backups:
  "sum_list (map BackupSizeMb
     (filter (\<lambda>b. BackupDatabaseID b = 1 \<and> Status b = BackupStatusCompleted)
        (catalog failedBackupWorld))) = 123 / 4 \<and>
   (123 / 4 :: rat) \<le> of_int (float64_of_int64 35) \<and>
   GetTotalSizeByDatabase quietEnv 1 failedBackupWorld = Inr 36 \<and>
   fst (cleanExceededBackupsForDatabase quietEnv 1 35 failedBackupWorld) = None \<and>
   deleteCalls (snd (cleanExceededBackupsForDatabase quietEnv 1 35 failedBackupWorld)) =
     [testBackup 3 BackupStatusCompleted (21 / 2) (time_Date 2025 6 18 8)] \<and>
   map ID (catalog (snd (cleanExceededBackupsForDatabase quietEnv 1 35 failedBackupWorld))) =
     [1, 2]"
  by code_simp

end
